theory Spec2Isabelle
  imports
    Main
    "HOL-Library.AList"
    "HOL-Library.Char_ord"
    "HOL-Library.List_Lexorder"
    "HOL-Library.Product_Lexorder"
begin

section \<open>Python values used by the window manager\<close>

text \<open>
  The module under study is \<^verbatim>\<open>relik/inference/data/window/manager.py\<close>: the class
  \<^verbatim>\<open>WindowManager\<close> with \<^verbatim>\<open>create_windows\<close> and \<^verbatim>\<open>merge_windows\<close>.
  Python exceptions are values of \<open>error\<close>; a function that can raise returns
  \<open>error + 'a\<close> with \<open>Inl\<close> for the exception.
\<close>

datatype error = AssertionError | IndexError | TypeError | ValueError

text \<open>
  A Python \<^verbatim>\<open>dict\<close> keeps its items in insertion order and has one item per key: it is an
  association list, \<^verbatim>\<open>d[k] = v\<close> is \<open>AList.update k v d\<close> (an existing key keeps its
  place, a new key goes last) and \<^verbatim>\<open>d[k]\<close> is \<open>map_of d k\<close>.

  The token-indexed dictionaries of a sample have the keys \<^verbatim>\<open>str(i)\<close> for integers
  \<^verbatim>\<open>i\<close>, and the merge reads them back with \<^verbatim>\<open>int(t)\<close>. The model identifies such a
  key with the integer it denotes, so \<^verbatim>\<open>str\<close> and \<^verbatim>\<open>int\<close> are the identity on keys.
\<close>

type_synonym ('k, 'v) dict = "('k \<times> 'v) list"

definition dict_update :: "('k, 'v) dict \<Rightarrow> ('k, 'v) dict \<Rightarrow> ('k, 'v) dict" where
  \<comment> \<open>\<^verbatim>\<open>d.update(other)\<close>, also the items of a dict comprehension written into \<open>[]\<close>\<close>
  "dict_update d other = foldl (\<lambda>acc (k, v). AList.update k v acc) d other"

text \<open>Python slicing \<^verbatim>\<open>xs[lo:hi]\<close>: a negative bound counts from the end, and both
  bounds are clamped to the list.\<close>

definition slice_index :: "nat \<Rightarrow> int \<Rightarrow> nat" where
  "slice_index n j = (if j < 0 then nat (max 0 (int n + j)) else min n (nat j))"

definition py_slice :: "'a list \<Rightarrow> int option \<Rightarrow> int option \<Rightarrow> 'a list" where
  "py_slice xs lo hi =
     (let n = length xs;
          a = (case lo of None \<Rightarrow> 0 | Some j \<Rightarrow> slice_index n j);
          b = (case hi of None \<Rightarrow> n | Some j \<Rightarrow> slice_index n j)
      in take (b - a) (drop a xs))"

text \<open>Python indexing \<^verbatim>\<open>xs[j]\<close>: a negative index counts from the end, an index out of
  range raises \<^verbatim>\<open>IndexError\<close>.\<close>

definition py_index :: "'a list \<Rightarrow> int \<Rightarrow> error + 'a" where
  "py_index xs j =
     (let n = int (length xs); p = (if j < 0 then n + j else j)
      in if 0 \<le> p \<and> p < n then Inr (xs ! nat p) else Inl IndexError)"

section \<open>The sample\<close>

text \<open>
  Modelled from the spec: the token class of the tokenizer is not part of the module.
  The module reads three attributes of a token: its text, the character offset
  \<^verbatim>\<open>idx\<close> of its first character and its index \<^verbatim>\<open>i\<close> in the document.
\<close>

record token =
  tok_text :: string
  tok_idx :: int
  tok_i :: int

text \<open>\<^verbatim>\<open>doc_topic\<close> is annotated \<^verbatim>\<open>str\<close>, but \<^verbatim>\<open>create_windows\<close> also stores a token
  object in it.\<close>

datatype topic = Topic_str string | Topic_token token

type_synonym span = "int \<times> int \<times> string"
type_synonym 'q triple = "int \<times> string \<times> int \<times> 'q"
type_synonym label = "int \<times> int \<times> string"

text \<open>
  The candidate lists of a sample are Python lists that \<^verbatim>\<open>_merge_candidates\<close> extends in
  place, so a sample holds a reference to each, and the lists live in a heap: the
  reference \<open>r\<close> is the position of the list in the heap. Python has no dangling
  reference: the references of a sample are positions of the heap it is used with. The
  other fields are read and never written through, and are values.
\<close>

type_synonym ref = nat
type_synonym heap = "string list list"

text \<open>
  Modelled from the spec: the class \<^verbatim>\<open>RelikReaderSample\<close> is imported by the module and
  is not part of it. A sample is a loosely structured object with optional fields: it
  keeps the keyword arguments it is built from, and reading an attribute it was not
  given yields \<^verbatim>\<open>None\<close>. Every field the module tests against \<^verbatim>\<open>None\<close>, or leaves
  out when it builds a sample, is an option. \<^verbatim>\<open>tokens\<close>, \<^verbatim>\<open>words\<close> and the two
  \<^verbatim>\<open>token2char\<close> dictionaries are given to every sample the module builds and are
  read without a test, so the record has them as plain values. \<open>'p\<close> is the type of a
  probability entry, \<open>'q\<close> of the fourth component of a predicted triple.
\<close>

record ('p, 'q) RelikReaderSample =
  doc_id :: "int option"
  window_id :: "int option"
  sample_text :: "string option"
  tokens :: "string list"
  words :: "string list"
  doc_topic :: "topic option"
  offset :: "int option"
  spans :: "int list list option"
  token2char_start :: "(int, int) dict"
  token2char_end :: "(int, int) dict"
  char2token_start :: "(int, int) dict option"
  char2token_end :: "(int, int) dict option"
  token2word_start :: "(int, int) dict option"
  token2word_end :: "(int, int) dict option"
  window_labels :: "label list option"
  candidates :: "ref option"
  windows_candidates :: "ref option"
  span_candidates :: "ref option"
  triplet_candidates :: "ref option"
  predicted_spans :: "span list option"
  probs_window_labels_chars :: "(span, 'p) dict option"
  predicted_spans_probs :: "(span, 'p) dict option"
  predicted_triples :: "'q triple list option"
  predicted_triples_probs :: "('q triple, 'p) dict option"

section \<open>Merging two windows\<close>

subsection \<open>Tokens\<close>

text \<open>
  The overlap scan of \<^verbatim>\<open>_merge_tokens\<close> and \<^verbatim>\<open>_merge_words\<close> (the same loop in both):
  \<^verbatim>\<open>for k in reversed(range(1, len(w1))): if w1[-k:] == w2[:k]: intersection = k; break\<close>.
  \<open>find_intersection w1 w2 m\<close> runs it from \<open>k = m\<close> downwards; the result is \<open>0\<close>
  when no \<open>k\<close> matches.
\<close>

fun find_intersection :: "'a list \<Rightarrow> 'a list \<Rightarrow> nat \<Rightarrow> nat" where
  "find_intersection w1 w2 0 = 0"
| "find_intersection w1 w2 (Suc k) =
     (if py_slice w1 (Some (- int (Suc k))) None = py_slice w2 None (Some (int (Suc k)))
      then Suc k
      else find_intersection w1 w2 k)"

text \<open>The local function \<^verbatim>\<open>merge_char_mapping\<close>; the two variables it closes over are
  its first two arguments.\<close>

definition merge_char_mapping ::
  "nat \<Rightarrow> int \<Rightarrow> (int, int) dict \<Rightarrow> (int, int) dict \<Rightarrow> (int, int) dict" where
  "merge_char_mapping tokens_intersection w2_starting_offset t2c1 t2c2 =
     foldl (\<lambda>final_t2c (t, c).
              if t < int tokens_intersection then final_t2c
              else AList.update (t + w2_starting_offset) c final_t2c)
       (dict_update [] t2c1) t2c2"

definition merge_tokens ::
  "('p, 'q) RelikReaderSample \<Rightarrow> ('p, 'q) RelikReaderSample \<Rightarrow>
   error + (string list \<times> (int, int) dict \<times> (int, int) dict)" where
  "merge_tokens window1 window2 =
     (let w1_tokens = py_slice (tokens window1) (Some 1) (Some (- 1));
          w2_tokens = py_slice (tokens window2) (Some 1) (Some (- 1));
          tokens_intersection = find_intersection w1_tokens w2_tokens (length w1_tokens - 1)
      in case py_index (tokens window1) 0 of
           Inl e \<Rightarrow> Inl e
         | Inr cls \<Rightarrow>
             (case py_index (tokens window1) (- 1) of
                Inl e \<Rightarrow> Inl e
              | Inr sep \<Rightarrow>
                  (let final_tokens =
                         [cls] @ w1_tokens
                         @ py_slice w2_tokens (Some (int tokens_intersection)) None @ [sep];
                       w2_starting_offset = int (length w1_tokens) - int tokens_intersection
                   in Inr (final_tokens,
                        merge_char_mapping tokens_intersection w2_starting_offset
                          (token2char_start window1) (token2char_start window2),
                        merge_char_mapping tokens_intersection w2_starting_offset
                          (token2char_end window1) (token2char_end window2)))))"

subsection \<open>Words\<close>

text \<open>The local function \<^verbatim>\<open>merge_word_mapping\<close>: a missing dictionary counts as empty.\<close>

definition merge_word_mapping ::
  "nat \<Rightarrow> int \<Rightarrow> (int, int) dict option \<Rightarrow> (int, int) dict option \<Rightarrow> (int, int) dict" where
  "merge_word_mapping words_intersection w2_starting_offset t2c1 t2c2 =
     (let t2c1 = (case t2c1 of None \<Rightarrow> [] | Some d \<Rightarrow> d);
          t2c2 = (case t2c2 of None \<Rightarrow> [] | Some d \<Rightarrow> d)
      in foldl (\<lambda>final_t2c (t, c).
                  if t < int words_intersection then final_t2c
                  else AList.update (t + w2_starting_offset) c final_t2c)
           (dict_update [] t2c1) t2c2)"

definition merge_words ::
  "('p, 'q) RelikReaderSample \<Rightarrow> ('p, 'q) RelikReaderSample \<Rightarrow>
   string list \<times> (int, int) dict \<times> (int, int) dict" where
  "merge_words window1 window2 =
     (let w1_words = words window1;
          w2_words = words window2;
          words_intersection = find_intersection w1_words w2_words (length w1_words - 1);
          final_words = w1_words @ py_slice w2_words (Some (int words_intersection)) None;
          w2_starting_offset = int (length w1_words) - int words_intersection
      in (final_words,
          merge_word_mapping words_intersection w2_starting_offset
            (token2word_start window1) (token2word_start window2),
          merge_word_mapping words_intersection w2_starting_offset
            (token2word_end window1) (token2word_end window2)))"

subsection \<open>Span annotations\<close>

text \<open>\<^verbatim>\<open>_merge_span_annotation\<close>: the loop keeps the first occurrence of each annotation;
  \<^verbatim>\<open>sorted(..., key=lambda x: x[0])\<close> is a stable sort on the start position.\<close>

definition merge_span_annotation :: "label list \<Rightarrow> label list \<Rightarrow> label list" where
  "merge_span_annotation span_annotation1 span_annotation2 =
     (let (uniq_store, final_span_annotation_store) =
            foldl (\<lambda>(uniq, final) span_annotation.
                     if span_annotation \<notin> uniq
                     then (insert span_annotation uniq, final @ [span_annotation])
                     else (uniq, final))
              ({}, []) (span_annotation1 @ span_annotation2)
      in sort_key fst final_span_annotation_store)"

subsection \<open>Predictions\<close>

text \<open>\<^verbatim>\<open>xs.index(x)\<close>: the first position of \<open>x\<close>, \<^verbatim>\<open>ValueError\<close> when there is none.\<close>

fun list_index :: "'a list \<Rightarrow> 'a \<Rightarrow> error + nat" where
  "list_index [] x = Inl ValueError"
| "list_index (y # ys) x =
     (if y = x then Inr 0
      else (case list_index ys x of Inl e \<Rightarrow> Inl e | Inr n \<Rightarrow> Inr (Suc n)))"

text \<open>A list comprehension whose element expression can raise.\<close>

fun map_err :: "('a \<Rightarrow> error + 'b) \<Rightarrow> 'a list \<Rightarrow> error + 'b list" where
  "map_err f [] = Inr []"
| "map_err f (x # xs) =
     (case f x of
        Inl e \<Rightarrow> Inl e
      | Inr y \<Rightarrow> (case map_err f xs of Inl e \<Rightarrow> Inl e | Inr ys \<Rightarrow> Inr (y # ys)))"

text \<open>The element expression of \<^verbatim>\<open>window1_triplets\<close> and \<^verbatim>\<open>window2_triplets\<close>:
  \<^verbatim>\<open>(merged.index(own[t[0]]), t[1], merged.index(own[t[2]]), t[3])\<close>.\<close>

definition translate_triple :: "span list \<Rightarrow> span list \<Rightarrow> 'q triple \<Rightarrow> error + 'q triple" where
  "translate_triple merged_span_predictions own_spans t =
     (case t of (t0, t1, t2, t3) \<Rightarrow>
        (case py_index own_spans t0 of
           Inl e \<Rightarrow> Inl e
         | Inr head_span \<Rightarrow>
             (case list_index merged_span_predictions head_span of
                Inl e \<Rightarrow> Inl e
              | Inr head_pos \<Rightarrow>
                  (case py_index own_spans t2 of
                     Inl e \<Rightarrow> Inl e
                   | Inr tail_span \<Rightarrow>
                       (case list_index merged_span_predictions tail_span of
                          Inl e \<Rightarrow> Inl e
                        | Inr tail_pos \<Rightarrow> Inr (int head_pos, t1, int tail_pos, t3))))))"

text \<open>The probability loop of \<^verbatim>\<open>_merge_predictions\<close> over the chained items of the two
  dictionaries, a missing dictionary giving no items.\<close>

definition merge_span_probabilities ::
  "(span, 'p) dict option \<Rightarrow> (span, 'p) dict option \<Rightarrow> (span, 'p) dict" where
  "merge_span_probabilities probs1 probs2 =
     foldl (\<lambda>merged_span_probabilities (span_prediction, predicted_probs).
              if map_of merged_span_probabilities span_prediction = None
              then AList.update span_prediction predicted_probs merged_span_probabilities
              else merged_span_probabilities)
       []
       ((case probs1 of None \<Rightarrow> [] | Some d \<Rightarrow> d) @ (case probs2 of None \<Rightarrow> [] | Some d \<Rightarrow> d))"

text \<open>\<^verbatim>\<open>_merge_predictions\<close>. \<^verbatim>\<open>sorted(set(a).union(set(b)))\<close> is the sorted list of the
  union; the empty sets and dictionaries the function starts from are empty lists.\<close>

definition merge_predictions ::
  "('p, 'q::linorder) RelikReaderSample \<Rightarrow> ('p, 'q) RelikReaderSample \<Rightarrow>
   error + (span list \<times> (span, 'p) dict \<times> 'q triple list \<times> ('q triple, 'p) dict)" where
  "merge_predictions window1 window2 =
     (case (predicted_spans window1, predicted_spans window2) of
        (Some spans1, Some spans2) \<Rightarrow>
          (let merged_span_predictions = sorted_list_of_set (set spans1 \<union> set spans2);
               merged_span_probabilities =
                 merge_span_probabilities (probs_window_labels_chars window1)
                   (probs_window_labels_chars window2)
           in case (predicted_triples window1, predicted_triples window2) of
                (Some triples1, Some triples2) \<Rightarrow>
                  (case map_err (translate_triple merged_span_predictions spans1) triples1 of
                     Inl e \<Rightarrow> Inl e
                   | Inr window1_triplets \<Rightarrow>
                       (case map_err (translate_triple merged_span_predictions spans2) triples2 of
                          Inl e \<Rightarrow> Inl e
                        | Inr window2_triplets \<Rightarrow>
                            Inr (merged_span_predictions, merged_span_probabilities,
                                 sorted_list_of_set (set window1_triplets \<union> set window2_triplets),
                                 [])))
              | _ \<Rightarrow> Inr (merged_span_predictions, merged_span_probabilities, [], []))
      | _ \<Rightarrow> Inr ([], [], [], []))"

subsection \<open>Candidates\<close>

text \<open>A new list object: it gets the next free position of the heap.\<close>

definition alloc :: "string list \<Rightarrow> heap \<Rightarrow> ref \<times> heap" where
  "alloc xs h = (length h, h @ [xs])"

text \<open>
  One group of \<^verbatim>\<open>_merge_candidates\<close>, the same statements for each of the four fields:
  \<^verbatim>\<open>c = []\<close>, then \<^verbatim>\<open>c = window1.f\<close> when that field is set (the name \<^verbatim>\<open>c\<close> now
  refers to the list of \<^verbatim>\<open>window1\<close> itself), then \<^verbatim>\<open>c += window2.f\<close> when that field is
  set, which extends the list \<^verbatim>\<open>c\<close> refers to in place.
\<close>

definition gather_candidates :: "ref option \<Rightarrow> ref option \<Rightarrow> heap \<Rightarrow> ref \<times> heap" where
  "gather_candidates field1 field2 h =
     (let (fresh, h1) = alloc [] h;
          c = (case field1 of None \<Rightarrow> fresh | Some r1 \<Rightarrow> r1);
          h2 = (case field2 of None \<Rightarrow> h1 | Some r2 \<Rightarrow> h1[c := h1 ! c @ h1 ! r2])
      in (c, h2))"

text \<open>
  \<^verbatim>\<open>c = list(set(c))\<close>: a new list with the elements of \<^verbatim>\<open>c\<close> once each, in the order
  in which Python iterates over the set. The program does not determine that order (it
  follows the hashes of the elements, which change from one run of the interpreter to
  the next), so it is a parameter of the model: \<open>set_order xs\<close> ranks the elements of the
  list \<open>xs\<close> the set is made of, and the new list has them by increasing rank. Every
  order of the elements is the order of some ranking.
\<close>

definition unique_candidates ::
  "(string list \<Rightarrow> string \<Rightarrow> nat) \<Rightarrow> ref \<Rightarrow> heap \<Rightarrow> ref \<times> heap" where
  "unique_candidates set_order c h =
     alloc (sort_key (set_order (h ! c)) (remdups (h ! c))) h"

definition merge_candidates ::
  "(string list \<Rightarrow> string \<Rightarrow> nat) \<Rightarrow>
   ('p, 'q) RelikReaderSample \<Rightarrow> ('p, 'q) RelikReaderSample \<Rightarrow> heap \<Rightarrow>
   (ref \<times> ref \<times> ref \<times> ref) \<times> heap" where
  "merge_candidates set_order window1 window2 h =
     (let (c, h) = gather_candidates (candidates window1) (candidates window2) h;
          (wc, h) = gather_candidates (windows_candidates window1) (windows_candidates window2) h;
          (sc, h) = gather_candidates (span_candidates window1) (span_candidates window2) h;
          (tc, h) = gather_candidates (triplet_candidates window1) (triplet_candidates window2) h;
          (c, h) = unique_candidates set_order c h;
          (wc, h) = unique_candidates set_order wc h;
          (sc, h) = unique_candidates set_order sc h;
          (tc, h) = unique_candidates set_order tc h
      in ((c, wc, sc, tc), h))"

subsection \<open>The pair\<close>

text \<open>
  \<^verbatim>\<open>_merge_window_pair\<close>. The heap comes back in every case: an exception raised after
  \<^verbatim>\<open>_merge_candidates\<close> has run does not undo what it wrote. A failed \<^verbatim>\<open>assert\<close> is
  \<^verbatim>\<open>AssertionError\<close>; \<^verbatim>\<open>window1.offset < None\<close> and iterating over the missing
  \<^verbatim>\<open>window_labels\<close> of \<^verbatim>\<open>window2\<close> are \<^verbatim>\<open>TypeError\<close>. The sample it returns has
  the fields of the \<^verbatim>\<open>merging_output\<close> dictionary and no other.
\<close>

definition pair_preconditions ::
  "('p, 'q) RelikReaderSample \<Rightarrow> ('p, 'q) RelikReaderSample \<Rightarrow> error option" where
  \<comment> \<open>the two guarded \<^verbatim>\<open>assert\<close> statements; \<open>None\<close> when both pass\<close>
  "pair_preconditions window1 window2 =
     (if doc_id window1 \<noteq> None \<and> doc_id window1 \<noteq> doc_id window2 then Some AssertionError
      else (case offset window1 of
              None \<Rightarrow> None
            | Some offset1 \<Rightarrow>
                (case offset window2 of
                   None \<Rightarrow> Some TypeError
                 | Some offset2 \<Rightarrow>
                     if offset1 < offset2 then None else Some AssertionError)))"

definition merge_window_labels ::
  "('p, 'q) RelikReaderSample \<Rightarrow> ('p, 'q) RelikReaderSample \<Rightarrow> error + label list option" where
  \<comment> \<open>\<^verbatim>\<open>window_labels = None\<close>, replaced by the merged annotations when \<^verbatim>\<open>window1\<close> has some\<close>
  "merge_window_labels window1 window2 =
     (case window_labels window1 of
        None \<Rightarrow> Inr None
      | Some labels1 \<Rightarrow>
          (case window_labels window2 of
             None \<Rightarrow> Inl TypeError
           | Some labels2 \<Rightarrow> Inr (Some (merge_span_annotation labels1 labels2))))"

definition merge_window_pair ::
  "(string list \<Rightarrow> string \<Rightarrow> nat) \<Rightarrow>
   ('p, 'q::linorder) RelikReaderSample \<Rightarrow> ('p, 'q) RelikReaderSample \<Rightarrow> heap \<Rightarrow>
   (error + ('p, 'q) RelikReaderSample) \<times> heap" where
  "merge_window_pair set_order window1 window2 h =
     (case pair_preconditions window1 window2 of
        Some e \<Rightarrow> (Inl e, h)
      | None \<Rightarrow>
        (case merge_tokens window1 window2 of
           Inl e \<Rightarrow> (Inl e, h)
         | Inr (m_tokens, m_token2char_start, m_token2char_end) \<Rightarrow>
             (let (m_words, m_token2word_start, m_token2word_end) = merge_words window1 window2;
                  ((m_candidates, m_windows_candidates, m_span_candidates, m_triplet_candidates),
                   h') = merge_candidates set_order window1 window2 h
              in case merge_window_labels window1 window2 of
                   Inl e \<Rightarrow> (Inl e, h')
                 | Inr m_window_labels \<Rightarrow>
                     (case merge_predictions window1 window2 of
                        Inl e \<Rightarrow> (Inl e, h')
                      | Inr (m_spans, m_spans_probs, m_triples, m_triples_probs) \<Rightarrow>
                          (Inr \<lparr>doc_id = doc_id window1,
                                window_id = None,
                                sample_text = None,
                                tokens = m_tokens,
                                words = m_words,
                                doc_topic = None,
                                offset = offset window2,
                                spans = None,
                                token2char_start = m_token2char_start,
                                token2char_end = m_token2char_end,
                                char2token_start = None,
                                char2token_end = None,
                                token2word_start = Some m_token2word_start,
                                token2word_end = Some m_token2word_end,
                                window_labels = m_window_labels,
                                candidates = Some m_candidates,
                                windows_candidates = Some m_windows_candidates,
                                span_candidates = Some m_span_candidates,
                                triplet_candidates = Some m_triplet_candidates,
                                predicted_spans = Some m_spans,
                                probs_window_labels_chars = None,
                                predicted_spans_probs = Some m_spans_probs,
                                predicted_triples = Some m_triples,
                                predicted_triples_probs = Some m_triples_probs\<rparr>,
                           h')))))"

section \<open>Merging the windows of documents\<close>

text \<open>The loop of \<^verbatim>\<open>_merge_doc_windows\<close>: it stops at the first pair that raises.\<close>

fun merge_loop ::
  "(string list \<Rightarrow> string \<Rightarrow> nat) \<Rightarrow>
   ('p, 'q::linorder) RelikReaderSample \<Rightarrow> ('p, 'q) RelikReaderSample list \<Rightarrow> heap \<Rightarrow>
   (error + ('p, 'q) RelikReaderSample) \<times> heap" where
  "merge_loop set_order window_accumulator [] h = (Inr window_accumulator, h)"
| "merge_loop set_order window_accumulator (next_window # rest) h =
     (case merge_window_pair set_order window_accumulator next_window h of
        (Inl e, h') \<Rightarrow> (Inl e, h')
      | (Inr merged, h') \<Rightarrow> merge_loop set_order merged rest h')"

text \<open>
  \<^verbatim>\<open>_merge_doc_windows\<close>. \<^verbatim>\<open>sorted(windows, key=lambda x: x.offset)\<close> is a stable sort,
  and comparing \<^verbatim>\<open>None\<close> with an integer raises \<^verbatim>\<open>TypeError\<close>; it runs on two windows
  or more, so it compares every key. \<^verbatim>\<open>windows[0]\<close> of no window is \<^verbatim>\<open>IndexError\<close>.
\<close>

definition merge_doc_windows ::
  "(string list \<Rightarrow> string \<Rightarrow> nat) \<Rightarrow>
   ('p, 'q::linorder) RelikReaderSample list \<Rightarrow> heap \<Rightarrow>
   (error + ('p, 'q) RelikReaderSample) \<times> heap" where
  "merge_doc_windows set_order windows h =
     (case windows of
        [] \<Rightarrow> (Inl IndexError, h)
      | [window] \<Rightarrow> (Inr window, h)
      | first # rest \<Rightarrow>
          (if offset first \<noteq> None
           then (if \<exists>w \<in> set windows. offset w = None then (Inl TypeError, h)
                 else (case sort_key (\<lambda>x. the (offset x)) windows of
                         [] \<Rightarrow> (Inl IndexError, h)
                       | w # ws \<Rightarrow> merge_loop set_order w ws h))
           else merge_loop set_order first rest h))"

text \<open>
  The grouping loop of \<^verbatim>\<open>merge_windows\<close> over a \<^verbatim>\<open>defaultdict(list)\<close> keyed by
  \<^verbatim>\<open>doc_id\<close> (\<^verbatim>\<open>None\<close> is a key like any other).
\<close>

definition group_by_doc_id ::
  "('p, 'q) RelikReaderSample list \<Rightarrow> (int option, ('p, 'q) RelikReaderSample list) dict" where
  "group_by_doc_id windows =
     foldl (\<lambda>windows_by_doc_id window.
              AList.update (doc_id window)
                ((case map_of windows_by_doc_id (doc_id window) of None \<Rightarrow> [] | Some ws \<Rightarrow> ws)
                 @ [window])
                windows_by_doc_id)
       [] windows"

text \<open>The dict comprehension of \<^verbatim>\<open>merge_windows\<close>, one document after the other, and
  the list of its values.\<close>

fun merge_groups ::
  "(string list \<Rightarrow> string \<Rightarrow> nat) \<Rightarrow>
   (int option, ('p, 'q::linorder) RelikReaderSample list) dict \<Rightarrow> heap \<Rightarrow>
   (error + ('p, 'q) RelikReaderSample list) \<times> heap" where
  "merge_groups set_order [] h = (Inr [], h)"
| "merge_groups set_order ((d, doc_windows) # rest) h =
     (case merge_doc_windows set_order doc_windows h of
        (Inl e, h') \<Rightarrow> (Inl e, h')
      | (Inr merged, h') \<Rightarrow>
          (case merge_groups set_order rest h' of
             (Inl e, h'') \<Rightarrow> (Inl e, h'')
           | (Inr others, h'') \<Rightarrow> (Inr (merged # others), h'')))"

definition merge_windows ::
  "(string list \<Rightarrow> string \<Rightarrow> nat) \<Rightarrow>
   ('p, 'q::linorder) RelikReaderSample list \<Rightarrow> heap \<Rightarrow>
   (error + ('p, 'q) RelikReaderSample list) \<times> heap" where
  "merge_windows set_order windows h = merge_groups set_order (group_by_doc_id windows) h"

section \<open>Creating windows\<close>

text \<open>
  A document of the normalised list is a string, or a list of words when the input is
  split into words already; \<^verbatim>\<open>create_windows\<close> tells them apart with
  \<^verbatim>\<open>isinstance(document, str)\<close>. The argument \<^verbatim>\<open>documents\<close> is a string or a list of
  strings.
\<close>

datatype document = Str string | Words "string list"

datatype documents = One_str string | Many "string list"

text \<open>
  The splitter is an external collaborator. \<^verbatim>\<open>create_windows\<close> writes two of its
  attributes when it has them (\<open>None\<close>: no such attribute; \<open>Some None\<close>: the attribute
  holds \<^verbatim>\<open>None\<close>) and calls it; the call is a parameter \<open>split\<close> of the model, which
  reads the attributes. The tokenizer is a parameter as well.
\<close>

record splitter =
  window_size :: "int option option"
  window_stride :: "int option option"

type_synonym tokenizer = "document list \<Rightarrow> bool \<Rightarrow> token list list"
type_synonym split_call = "splitter \<Rightarrow> token list \<Rightarrow> int option \<Rightarrow> token list list"

definition normalize_documents :: "documents \<Rightarrow> bool \<Rightarrow> document list" where
  \<comment> \<open>\<^verbatim>\<open>if isinstance(documents, str) or is_split_into_words: documents = [documents]\<close>\<close>
  "normalize_documents docs is_split_into_words =
     (case docs of
        One_str s \<Rightarrow> [Str s]
      | Many ds \<Rightarrow> if is_split_into_words then [Words ds] else map Str ds)"

definition py_or :: "int option \<Rightarrow> int option \<Rightarrow> int option" where
  \<comment> \<open>\<^verbatim>\<open>a or b\<close> on optional integers: \<^verbatim>\<open>None\<close> and \<^verbatim>\<open>0\<close> are false\<close>
  "py_or a b = (case a of None \<Rightarrow> b | Some n \<Rightarrow> if n = 0 then b else Some n)"

definition set_splitter_params :: "splitter \<Rightarrow> int option \<Rightarrow> int option \<Rightarrow> splitter" where
  "set_splitter_params sp window_size_arg stride =
     sp\<lparr>window_size :=
          (case window_size sp of
             None \<Rightarrow> None
           | Some current \<Rightarrow> Some (py_or window_size_arg current)),
        window_stride :=
          (case window_stride sp of
             None \<Rightarrow> None
           | Some current \<Rightarrow> Some (py_or stride current))\<rparr>"

text \<open>\<^verbatim>\<open>" ".join(...)\<close> with any separator.\<close>

fun join :: "string \<Rightarrow> string list \<Rightarrow> string" where
  "join sep [] = []"
| "join sep [x] = x"
| "join sep (x # y # ys) = x @ sep @ join sep (y # ys)"

text \<open>
  The comprehension that builds \<^verbatim>\<open>spans\<close>. Its condition is
  \<^verbatim>\<open>window_text_end > m[0] >= window_text_start and window_text_end >= m[1] >= window_text_start\<close>:
  \<^verbatim>\<open>m[1]\<close> is read only when the first half holds.
\<close>

fun window_spans :: "int \<Rightarrow> int \<Rightarrow> int list list \<Rightarrow> error + int list list" where
  "window_spans window_text_start window_text_end [] = Inr []"
| "window_spans window_text_start window_text_end (m # rest) =
     (case py_index m 0 of
        Inl e \<Rightarrow> Inl e
      | Inr m0 \<Rightarrow>
          if window_text_end > m0 \<and> m0 \<ge> window_text_start
          then (case py_index m 1 of
                  Inl e \<Rightarrow> Inl e
                | Inr m1 \<Rightarrow>
                    if window_text_end \<ge> m1 \<and> m1 \<ge> window_text_start
                    then (case window_spans window_text_start window_text_end rest of
                            Inl e \<Rightarrow> Inl e
                          | Inr others \<Rightarrow> Inr ([m0, m1] # others))
                    else window_spans window_text_start window_text_end rest)
          else window_spans window_text_start window_text_end rest)"

text \<open>
  The body of the inner loop up to the sample: \<^verbatim>\<open>window[0]\<close> and \<^verbatim>\<open>window[-1]\<close> of an
  empty window, and \<^verbatim>\<open>m[0]\<close> or \<^verbatim>\<open>m[1]\<close> of too short a mention, raise
  \<^verbatim>\<open>IndexError\<close>. The sample has the twelve fields the constructor is given.
\<close>

definition window_sample ::
  "int \<Rightarrow> int \<Rightarrow> document \<Rightarrow> topic option \<Rightarrow> int list list \<Rightarrow> token list \<Rightarrow>
   error + ('p, 'q) RelikReaderSample" where
  "window_sample doc_id_arg window_id_arg document doc_topic_arg document_mentions window =
     (case py_index window 0 of
        Inl e \<Rightarrow> Inl e
      | Inr first \<Rightarrow>
          (case py_index window (- 1) of
             Inl e \<Rightarrow> Inl e
           | Inr final \<Rightarrow>
               (let window_text_start = tok_idx first;
                    window_text_end = tok_idx final + int (length (tok_text final));
                    text = (case document of
                              Str s \<Rightarrow> py_slice s (Some window_text_start) (Some window_text_end)
                            | Words ws \<Rightarrow> join '' '' (map tok_text window))
                in case window_spans window_text_start window_text_end document_mentions of
                     Inl e \<Rightarrow> Inl e
                   | Inr window_mentions \<Rightarrow>
                       Inr \<lparr>doc_id = Some doc_id_arg,
                            window_id = Some window_id_arg,
                            sample_text = Some text,
                            tokens = map tok_text window,
                            words = map tok_text window,
                            doc_topic = doc_topic_arg,
                            offset = Some window_text_start,
                            spans = Some window_mentions,
                            token2char_start =
                              dict_update []
                                (map (\<lambda>(i, w). (int i, tok_idx w)) (List.enumerate 0 window)),
                            token2char_end =
                              dict_update []
                                (map (\<lambda>(i, w). (int i, tok_idx w + int (length (tok_text w))))
                                   (List.enumerate 0 window)),
                            char2token_start =
                              Some (dict_update []
                                (map (\<lambda>(i, w). (tok_idx w, tok_i w)) (List.enumerate 0 window))),
                            char2token_end =
                              Some (dict_update []
                                (map (\<lambda>(i, w). (tok_idx w + int (length (tok_text w)), tok_i w))
                                   (List.enumerate 0 window))),
                            token2word_start = None,
                            token2word_end = None,
                            window_labels = None,
                            candidates = None,
                            windows_candidates = None,
                            span_candidates = None,
                            triplet_candidates = None,
                            predicted_spans = None,
                            probs_window_labels_chars = None,
                            predicted_spans_probs = None,
                            predicted_triples = None,
                            predicted_triples_probs = None\<rparr>)))"

text \<open>
  The inner loop over \<^verbatim>\<open>enumerate(splitted_document)\<close>, with the two lists it appends
  to: \<^verbatim>\<open>document_windows\<close> and \<^verbatim>\<open>windowed_blank_documents\<close>. \<open>has_mentions\<close> is
  \<^verbatim>\<open>mentions is not None\<close>.
\<close>

fun window_loop ::
  "bool \<Rightarrow> int \<Rightarrow> document \<Rightarrow> topic option \<Rightarrow> int list list \<Rightarrow> nat \<Rightarrow> token list list \<Rightarrow>
   ('p, 'q) RelikReaderSample list \<Rightarrow> ('p, 'q) RelikReaderSample list \<Rightarrow>
   error + (('p, 'q) RelikReaderSample list \<times> ('p, 'q) RelikReaderSample list)" where
  "window_loop has_mentions d document topic document_mentions n []
     document_windows windowed_blank_documents =
     Inr (document_windows, windowed_blank_documents)"
| "window_loop has_mentions d document topic document_mentions n (window # rest)
     document_windows windowed_blank_documents =
     (case window_sample d (int n) document topic document_mentions window of
        Inl e \<Rightarrow> Inl e
      | Inr sample \<Rightarrow>
          if has_mentions \<and> spans sample = Some []
          then window_loop has_mentions d document topic document_mentions (Suc n) rest
                 document_windows (windowed_blank_documents @ [sample])
          else window_loop has_mentions d document topic document_mentions (Suc n) rest
                 (document_windows @ [sample]) windowed_blank_documents)"

text \<open>
  The outer loop over \<^verbatim>\<open>enumerate(doc_iter)\<close>. \<^verbatim>\<open>doc_topic\<close> is the variable of the
  function: the loop assigns it when it is \<^verbatim>\<open>None\<close>, and the next iteration starts
  from the value the last one left. \<open>sp\<close> is the splitter after its attributes were set.
\<close>

fun doc_loop ::
  "split_call \<Rightarrow> splitter \<Rightarrow> int option \<Rightarrow> bool \<Rightarrow> nat \<Rightarrow>
   (document \<times> token list \<times> int list list) list \<Rightarrow> topic option \<Rightarrow>
   ('p, 'q) RelikReaderSample list \<Rightarrow> ('p, 'q) RelikReaderSample list \<Rightarrow>
   error + (('p, 'q) RelikReaderSample list \<times> ('p, 'q) RelikReaderSample list)" where
  "doc_loop split sp max_length has_mentions d [] topic
     windowed_documents windowed_blank_documents =
     Inr (windowed_documents, windowed_blank_documents)"
| "doc_loop split sp max_length has_mentions d
     ((document, document_tokens, document_mentions) # rest) topic
     windowed_documents windowed_blank_documents =
     (let topic' = (case topic of
                      None \<Rightarrow> Some (if length document_tokens > 0
                                     then Topic_token (document_tokens ! 0)
                                     else Topic_str [])
                    | Some t \<Rightarrow> Some t);
          splitted_document = split sp document_tokens max_length
      in case window_loop has_mentions (int d) document topic' document_mentions 0
                splitted_document [] windowed_blank_documents of
           Inl e \<Rightarrow> Inl e
         | Inr (document_windows, blank) \<Rightarrow>
             doc_loop split sp max_length has_mentions (Suc d) rest topic'
               (windowed_documents @ document_windows) blank)"

text \<open>
  The iterator \<^verbatim>\<open>doc_iter\<close>: \<^verbatim>\<open>zip\<close> stops at the shortest of its arguments, and
  \<^verbatim>\<open>itertools.repeat([])\<close> gives every document the empty mention list.
\<close>

definition doc_iter ::
  "document list \<Rightarrow> token list list \<Rightarrow> int list list list option \<Rightarrow>
   (document \<times> token list \<times> int list list) list" where
  "doc_iter document_list documents_tokens mentions =
     (case mentions of
        Some ms \<Rightarrow> zip document_list (zip documents_tokens ms)
      | None \<Rightarrow>
          zip document_list (zip documents_tokens (replicate (length document_list) [])))"

text \<open>
  \<^verbatim>\<open>create_windows\<close>. It returns the splitter too, whose attributes it has written;
  they stay written when the \<^verbatim>\<open>assert\<close> on the mentions fails afterwards.
\<close>

definition create_windows ::
  "tokenizer \<Rightarrow> split_call \<Rightarrow> splitter \<Rightarrow> documents \<Rightarrow> int option \<Rightarrow> int option \<Rightarrow>
   int option \<Rightarrow> topic option \<Rightarrow> bool \<Rightarrow> int list list list option \<Rightarrow>
   (error + (('p, 'q) RelikReaderSample list \<times> ('p, 'q) RelikReaderSample list)) \<times> splitter" where
  "create_windows tokenize split sp docs window_size_arg stride max_length doc_topic_arg
     is_split_into_words mentions =
     (let document_list = normalize_documents docs is_split_into_words;
          documents_tokens = tokenize document_list is_split_into_words;
          sp' = set_splitter_params sp window_size_arg stride
      in case mentions of
           Some ms \<Rightarrow>
             if length document_list = length ms
             then (doc_loop split sp' max_length True 0
                     (doc_iter document_list documents_tokens mentions) doc_topic_arg [] [], sp')
             else (Inl AssertionError, sp')
         | None \<Rightarrow>
             (doc_loop split sp' max_length False 0
                (doc_iter document_list documents_tokens mentions) doc_topic_arg [] [], sp'))"

section \<open>Definitions that follow the specification\<close>

text \<open>
  The overlap as the specification words it: the largest \<open>k\<close> among \<open>1, ..., len(a) - 1\<close>
  such that the last \<open>k\<close> elements of \<open>a\<close> are the first \<open>k\<close> elements of \<open>b\<close>, and
  \<open>0\<close> when there is none.
\<close>

definition spec_overlap :: "'a list \<Rightarrow> 'a list \<Rightarrow> nat" where
  "spec_overlap a b =
     (let ks = filter (\<lambda>k. drop (length a - k) a = take k b) [1..<length a]
      in if ks = [] then 0 else Max (set ks))"

text \<open>
  The words of the specification on the re-keyed maps. \<open>content\<close> is \<^verbatim>\<open>tokens[1:-1]\<close>;
  \<open>entries\<close> reads an optional dictionary, a missing one having no entry; a list of
  items is a dictionary when its keys are distinct. \<open>remapped k shift d1 d2 merged\<close>:
  every entry \<open>(t, c)\<close> of \<open>d2\<close> with \<open>t \<ge> k\<close> is in \<open>merged\<close> under the key
  \<open>t + shift\<close>, and under every key that no such entry lands on \<open>merged\<close> has what
  \<open>d1\<close> has there (so an entry of \<open>d2\<close> with \<open>t < k\<close> leaves no trace).
\<close>

definition content :: "'a list \<Rightarrow> 'a list" where
  "content ts = butlast (tl ts)"

definition entries :: "('k, 'v) dict option \<Rightarrow> ('k, 'v) dict" where
  "entries d = (case d of None \<Rightarrow> [] | Some items \<Rightarrow> items)"

definition is_dict :: "('k, 'v) dict \<Rightarrow> bool" where
  "is_dict d \<longleftrightarrow> distinct (map fst d)"

definition well_formed_maps :: "('p, 'q) RelikReaderSample \<Rightarrow> bool" where
  "well_formed_maps w \<longleftrightarrow>
     is_dict (token2char_start w) \<and> is_dict (token2char_end w)
     \<and> is_dict (entries (token2word_start w)) \<and> is_dict (entries (token2word_end w))"

definition remapped ::
  "nat \<Rightarrow> int \<Rightarrow> (int, int) dict \<Rightarrow> (int, int) dict \<Rightarrow> (int, int) dict \<Rightarrow> bool" where
  "remapped k shift d1 d2 merged \<longleftrightarrow>
     (\<forall>(t, c) \<in> set d2. int k \<le> t \<longrightarrow> map_of merged (t + shift) = Some c)
     \<and> (\<forall>j. (\<forall>(t, c) \<in> set d2. int k \<le> t \<longrightarrow> t + shift \<noteq> j) \<longrightarrow>
            map_of merged j = map_of d1 j)"

text \<open>
  The windows \<^verbatim>\<open>create_windows\<close> constructs, in the order it constructs them and
  before it routes them: for each document of \<^verbatim>\<open>doc_iter\<close> in turn and each group of the
  splitter in turn, the sample of that group. \<open>routed_blank\<close> is the test that sends a
  sample to the blank output.
\<close>

fun doc_samples ::
  "split_call \<Rightarrow> splitter \<Rightarrow> int option \<Rightarrow> nat \<Rightarrow>
   (document \<times> token list \<times> int list list) list \<Rightarrow> topic option \<Rightarrow>
   error + ('p, 'q) RelikReaderSample list" where
  "doc_samples split sp max_length d [] topic = Inr []"
| "doc_samples split sp max_length d ((document, document_tokens, document_mentions) # rest)
     topic =
     (let topic' = (case topic of
                      None \<Rightarrow> Some (if length document_tokens > 0
                                     then Topic_token (document_tokens ! 0)
                                     else Topic_str [])
                    | Some t \<Rightarrow> Some t)
      in case map_err (\<lambda>(n, window).
                         window_sample (int d) (int n) document topic' document_mentions window)
                (List.enumerate 0 (split sp document_tokens max_length)) of
           Inl e \<Rightarrow> Inl e
         | Inr samples \<Rightarrow>
             (case doc_samples split sp max_length (Suc d) rest topic' of
                Inl e \<Rightarrow> Inl e
              | Inr others \<Rightarrow> Inr (samples @ others)))"

definition constructed_windows ::
  "tokenizer \<Rightarrow> split_call \<Rightarrow> splitter \<Rightarrow> documents \<Rightarrow> int option \<Rightarrow> int option \<Rightarrow>
   int option \<Rightarrow> topic option \<Rightarrow> bool \<Rightarrow> int list list list option \<Rightarrow>
   error + ('p, 'q) RelikReaderSample list" where
  "constructed_windows tokenize split sp docs window_size_arg stride max_length doc_topic_arg
     is_split_into_words mentions =
     (let document_list = normalize_documents docs is_split_into_words
      in doc_samples split (set_splitter_params sp window_size_arg stride) max_length 0
           (doc_iter document_list (tokenize document_list is_split_into_words) mentions)
           doc_topic_arg)"

definition routed_blank :: "bool \<Rightarrow> ('p, 'q) RelikReaderSample \<Rightarrow> bool" where
  "routed_blank has_mentions sample \<longleftrightarrow> has_mentions \<and> spans sample = Some []"

text \<open>
  The end offset of a token, and the position a character offset leads back to: the
  last token of the window with the same offset as the token at \<open>k\<close> (the token at
  \<open>k\<close> itself when the offsets of the window are distinct).
\<close>

definition tok_end :: "token \<Rightarrow> int" where
  "tok_end w = tok_idx w + int (length (tok_text w))"

definition last_with_same :: "(token \<Rightarrow> int) \<Rightarrow> token list \<Rightarrow> nat \<Rightarrow> nat \<Rightarrow> bool" where
  "last_with_same g window k k' \<longleftrightarrow>
     k \<le> k' \<and> k' < length window \<and> g (window ! k') = g (window ! k)
     \<and> (\<forall>j. k' < j \<and> j < length window \<longrightarrow> g (window ! j) \<noteq> g (window ! k))"

text \<open>
  A translated triple, in the words of the specification: \<open>t'\<close> has the relation and
  the fourth component of \<open>t\<close>, and its two indices are positions, in the merged span
  list, of the spans that the two indices of \<open>t\<close> refer to in the window's own list.
\<close>

definition translation_of :: "span list \<Rightarrow> span list \<Rightarrow> 'q triple \<Rightarrow> 'q triple \<Rightarrow> bool" where
  "translation_of merged own t t' \<longleftrightarrow>
     (case (t, t') of
        ((head, relation, tail, score), (head', relation', tail', score')) \<Rightarrow>
          relation' = relation \<and> score' = score
          \<and> 0 \<le> head' \<and> nat head' < length merged
          \<and> 0 \<le> tail' \<and> nat tail' < length merged
          \<and> py_index own head = Inr (merged ! nat head')
          \<and> py_index own tail = Inr (merged ! nat tail'))"

text \<open>
  Heap frames. \<open>candidate_refs w\<close> are the candidate lists the window \<open>w\<close> refers to;
  \<open>unchanged_outside R h h'\<close>: the heap \<open>h'\<close> has every list of \<open>h\<close>, and each of them
  that is not at a reference of \<open>R\<close> is as it was in \<open>h\<close>.
\<close>

definition candidate_refs :: "('p, 'q) RelikReaderSample \<Rightarrow> ref set" where
  "candidate_refs w =
     set_option (candidates w) \<union> set_option (windows_candidates w)
     \<union> set_option (span_candidates w) \<union> set_option (triplet_candidates w)"

definition unchanged_outside :: "ref set \<Rightarrow> heap \<Rightarrow> heap \<Rightarrow> bool" where
  "unchanged_outside R h h' \<longleftrightarrow>
     length h \<le> length h' \<and> (\<forall>x<length h. x \<notin> R \<longrightarrow> h' ! x = h ! x)"

text \<open>
  The window the merge of a document starts from. \<^verbatim>\<open>_merge_doc_windows\<close> sorts the
  windows of the document by offset when the first of them has one, and folds from the
  first window of the list: \<open>fold_start ws\<close>. \<open>windows_of_doc d windows\<close> are the windows
  of the document \<open>d\<close> in the order of the call, and \<open>fold_starts windows\<close> are the
  starting windows of the documents that have two windows or more (a document of one
  window is not merged).
\<close>

definition fold_start :: "('p, 'q) RelikReaderSample list \<Rightarrow> ('p, 'q) RelikReaderSample" where
  "fold_start ws =
     hd (if offset (hd ws) \<noteq> None then sort_key (\<lambda>x. the (offset x)) ws else ws)"

definition windows_of_doc ::
  "int option \<Rightarrow> ('p, 'q) RelikReaderSample list \<Rightarrow> ('p, 'q) RelikReaderSample list" where
  "windows_of_doc d windows = filter (\<lambda>w. doc_id w = d) windows"

definition fold_starts :: "('p, 'q) RelikReaderSample list \<Rightarrow> ('p, 'q) RelikReaderSample set" where
  "fold_starts windows =
     set (map (\<lambda>d. fold_start (windows_of_doc d windows))
            (filter (\<lambda>d. 2 \<le> length (windows_of_doc d windows)) (remdups (map doc_id windows))))"

section \<open>Example inputs\<close>

text \<open>A sample with no field set and no tokens; the examples fill in the fields they use.\<close>

definition empty_sample :: "('p, 'q) RelikReaderSample" where
  "empty_sample =
     \<lparr>doc_id = None, window_id = None, sample_text = None, tokens = [], words = [],
      doc_topic = None, offset = None, spans = None, token2char_start = [],
      token2char_end = [], char2token_start = None, char2token_end = None,
      token2word_start = None, token2word_end = None, window_labels = None,
      candidates = None, windows_candidates = None, span_candidates = None,
      triplet_candidates = None, predicted_spans = None, probs_window_labels_chars = None,
      predicted_spans_probs = None, predicted_triples = None,
      predicted_triples_probs = None\<rparr>"

text \<open>
  An order for \<^verbatim>\<open>list(set(c))\<close>, to run a merge: all elements rank alike, which leaves
  them in the order of their last occurrences in the list.
\<close>

definition given_order :: "string list \<Rightarrow> string \<Rightarrow> nat" where
  "given_order xs x = 0"

text \<open>
  Two windows with boundary markers, as the specification describes them: the token
  maps have a key for every position of \<^verbatim>\<open>tokens\<close>, the markers included, and the words
  are the content tokens.
\<close>

definition marked_a :: "(int, int) RelikReaderSample" where
  "marked_a = empty_sample
     \<lparr>tokens := [''[CLS]'', ''the'', ''cat'', ''sat'', ''[SEP]''],
      words := [''the'', ''cat'', ''sat''],
      token2char_start := [(0, 0), (1, 0), (2, 4), (3, 8), (4, 11)],
      token2char_end := [(0, 0), (1, 3), (2, 7), (3, 11), (4, 11)]\<rparr>"

definition marked_b :: "(int, int) RelikReaderSample" where
  "marked_b = empty_sample
     \<lparr>tokens := [''[CLS]'', ''cat'', ''sat'', ''down'', ''[SEP]''],
      words := [''cat'', ''sat'', ''down''],
      token2char_start := [(0, 4), (1, 4), (2, 8), (3, 12), (4, 16)],
      token2char_end := [(0, 4), (1, 7), (2, 11), (3, 16), (4, 16)]\<rparr>"

text \<open>
  Example collaborators, to run \<^verbatim>\<open>create_windows\<close> on concrete documents: a tokenizer
  that splits at spaces (a pre-tokenized document is tokenized as its words joined by
  spaces), and a splitter that slides a window of \<^verbatim>\<open>window_size\<close> tokens by
  \<^verbatim>\<open>window_stride\<close> tokens and ignores \<^verbatim>\<open>max_length\<close>.
\<close>

fun space_tokens :: "int \<Rightarrow> int \<Rightarrow> string \<Rightarrow> string \<Rightarrow> token list" where
  "space_tokens pos n word [] =
     (if word = [] then []
      else [\<lparr>tok_text = word, tok_idx = pos - int (length word), tok_i = n\<rparr>])"
| "space_tokens pos n word (c # cs) =
     (if c = CHR '' ''
      then (if word = [] then space_tokens (pos + 1) n [] cs
            else \<lparr>tok_text = word, tok_idx = pos - int (length word), tok_i = n\<rparr>
                 # space_tokens (pos + 1) (n + 1) [] cs)
      else space_tokens (pos + 1) n (word @ [c]) cs)"

definition space_tokenizer :: tokenizer where
  "space_tokenizer document_list is_split_into_words =
     map (\<lambda>d. case d of
                 Str s \<Rightarrow> space_tokens 0 0 [] s
               | Words ws \<Rightarrow> space_tokens 0 0 [] (join '' '' ws))
       document_list"

function sliding :: "nat \<Rightarrow> nat \<Rightarrow> 'a list \<Rightarrow> 'a list list" where
  "sliding width stride xs =
     (if xs = [] then []
      else if length xs \<le> width \<or> stride = 0 then [xs]
      else take width xs # sliding width stride (drop stride xs))"
  by pat_completeness auto
termination
  by (relation "measure (\<lambda>(width, stride, xs). length xs)") auto

definition window_splitter :: split_call where
  "window_splitter sp document_tokens max_length =
     (let width = (case window_size sp of Some (Some n) \<Rightarrow> nat n | _ \<Rightarrow> length document_tokens);
          stride = (case window_stride sp of Some (Some n) \<Rightarrow> nat n | _ \<Rightarrow> width)
      in sliding width stride document_tokens)"

definition example_splitter :: splitter where
  "example_splitter = \<lparr>window_size = Some (Some 3), window_stride = Some (Some 1)\<rparr>"

text \<open>
  A call of \<^verbatim>\<open>create_windows\<close> on one document with one mention, \<^verbatim>\<open>[0, 3]\<close>, and
  windows of three tokens sliding by one: the first window has the mention, the second
  has none.
\<close>

definition example_call ::
  "(error + ((int, int) RelikReaderSample list \<times> (int, int) RelikReaderSample list)) \<times> splitter"
  where
  "example_call =
     create_windows space_tokenizer window_splitter example_splitter
       (One_str ''the cat sat down'') None None None None False (Some [[[0, 3]]])"

text \<open>
  The same document with two mentions: \<^verbatim>\<open>[12, 12]\<close>, whose end is not after its start,
  and \<^verbatim>\<open>[9, 13]\<close>, which begins in the first window (characters 0 to 11) and ends
  after it.
\<close>

definition straddling_call ::
  "(error + ((int, int) RelikReaderSample list \<times> (int, int) RelikReaderSample list)) \<times> splitter"
  where
  "straddling_call =
     create_windows space_tokenizer window_splitter example_splitter
       (One_str ''the cat sat down'') None None None None False (Some [[[12, 12], [9, 13]]])"

text \<open>Two documents and no \<^verbatim>\<open>doc_topic\<close> argument; each document is one window.\<close>

definition two_documents_call ::
  "(error + ((int, int) RelikReaderSample list \<times> (int, int) RelikReaderSample list)) \<times> splitter"
  where
  "two_documents_call =
     create_windows space_tokenizer window_splitter example_splitter
       (Many [''the cat'', ''a b'']) None None None None False None"

text \<open>The two marked windows with predictions: spans, probabilities and triples.\<close>

definition predicted_a :: "(int, int) RelikReaderSample" where
  "predicted_a = marked_a
     \<lparr>predicted_spans := Some [(5, 8, ''LOC''), (0, 3, ''PER'')],
      probs_window_labels_chars := Some [((5, 8, ''LOC''), 80), ((0, 3, ''PER''), 90)],
      predicted_triples := Some [(1, ''born in'', 0, 7)]\<rparr>"

definition predicted_b :: "(int, int) RelikReaderSample" where
  "predicted_b = marked_b
     \<lparr>predicted_spans := Some [(3, 3, ''MISC''), (5, 8, ''LOC'')],
      probs_window_labels_chars := Some [((3, 3, ''MISC''), 60), ((5, 8, ''LOC''), 70)],
      predicted_triples := Some [(0, ''rel'', 1, 1), (- 1, ''rel'', 0, 2)]\<rparr>"

text \<open>
  A third window of the same document, after the two: it overlaps \<open>marked_b\<close> in the
  tokens \<^verbatim>\<open>sat down\<close>, and has one predicted span with its probability.
\<close>

definition marked_c :: "(int, int) RelikReaderSample" where
  "marked_c = empty_sample
     \<lparr>tokens := [''[CLS]'', ''sat'', ''down'', ''now'', ''[SEP]''],
      words := [''sat'', ''down'', ''now''],
      token2char_start := [(0, 8), (1, 8), (2, 12), (3, 17), (4, 20)],
      token2char_end := [(0, 8), (1, 11), (2, 16), (3, 20), (4, 20)]\<rparr>"

definition predicted_c :: "(int, int) RelikReaderSample" where
  "predicted_c = marked_c
     \<lparr>predicted_spans := Some [(17, 20, ''TIME'')],
      probs_window_labels_chars := Some [((17, 20, ''TIME''), 50)]\<rparr>"

text \<open>
  Two windows of one document with candidate lists, and the heap that holds the lists:
  the list at \<open>0\<close> is the \<^verbatim>\<open>candidates\<close> of the first window, the list at \<open>1\<close> of the
  second, and no window refers to the list at \<open>2\<close>.
\<close>

definition candidate_a :: "(int, int) RelikReaderSample" where
  "candidate_a = marked_a\<lparr>candidates := Some 0\<rparr>"

definition candidate_b :: "(int, int) RelikReaderSample" where
  "candidate_b = marked_b\<lparr>candidates := Some 1\<rparr>"

definition candidate_heap :: heap where
  "candidate_heap = [[''Paris''], [''Rome''], [''Oslo'']]"

text \<open>
  The same two windows as windows of the document 7, at the offsets 0 and 4.
\<close>

definition offset_a :: "(int, int) RelikReaderSample" where
  "offset_a = candidate_a\<lparr>doc_id := Some 7, offset := Some 0\<rparr>"

definition offset_b :: "(int, int) RelikReaderSample" where
  "offset_b = candidate_b\<lparr>doc_id := Some 7, offset := Some 4\<rparr>"

text \<open>A call of \<^verbatim>\<open>create_windows\<close> with \<^verbatim>\<open>window_size=2\<close> on the splitter whose
  \<^verbatim>\<open>window_size\<close> is 3.\<close>

definition resizing_call ::
  "(error + ((int, int) RelikReaderSample list \<times> (int, int) RelikReaderSample list)) \<times> splitter"
  where
  "resizing_call =
     create_windows space_tokenizer window_splitter example_splitter
       (One_str ''the cat sat down'') (Some 2) None None None False None"

section \<open>Properties\<close>

subsection \<open>Slices and indices\<close>

lemma py_slice_inner: "py_slice xs (Some 1) (Some (- 1)) = butlast (tl xs)"
  by (cases xs)
    (auto simp: py_slice_def slice_index_def butlast_conv_take drop_Suc max_def min_def
      nat_diff_distrib')

lemma py_slice_from: "py_slice xs (Some (int k)) None = drop k xs"
  by (auto simp: py_slice_def slice_index_def min_def Let_def)

lemma py_slice_upto: "py_slice xs None (Some (int k)) = take k xs"
  by (auto simp: py_slice_def slice_index_def min_def Let_def)

lemma py_slice_tail: "0 < k \<Longrightarrow> py_slice xs (Some (- int k)) None = drop (length xs - k) xs"
  by (auto simp: py_slice_def slice_index_def max_def nat_diff_distrib' Let_def)

lemma py_index_first: "xs \<noteq> [] \<Longrightarrow> py_index xs 0 = Inr (hd xs)"
  by (cases xs) (auto simp: py_index_def)

lemma py_index_last: "xs \<noteq> [] \<Longrightarrow> py_index xs (- 1) = Inr (last xs)"
  by (auto simp: py_index_def Let_def last_conv_nth nat_diff_distrib')

lemma py_index_empty: "py_index [] j = Inl IndexError"
  by (auto simp: py_index_def)

subsection \<open>The overlap scan\<close>

lemma find_intersection_filter:
  "find_intersection w1 w2 m =
     (let ks = filter (\<lambda>k. drop (length w1 - k) w1 = take k w2) [1..<Suc m]
      in if ks = [] then 0 else Max (set ks))"
proof (induction m)
  case 0
  show ?case by simp
next
  case (Suc m)
  let ?P = "\<lambda>k. drop (length w1 - k) w1 = take k w2"
  have step: "find_intersection w1 w2 (Suc m) =
      (if ?P (Suc m) then Suc m else find_intersection w1 w2 m)"
    using py_slice_tail [of "Suc m" w1] py_slice_upto [of w2 "Suc m"] by simp
  show ?case
  proof (cases "?P (Suc m)")
    case True
    have "Max (set (filter ?P [1..<Suc (Suc m)])) = Suc m"
      using True by (intro Max_eqI) auto
    moreover have "filter ?P [1..<Suc (Suc m)] \<noteq> []"
      using True by (auto simp: filter_empty_conv)
    ultimately show ?thesis using True unfolding step Let_def
      by presburger
  next
    case False
    then have "filter ?P [1..<Suc (Suc m)] = filter ?P [1..<Suc m]"
      by simp
    then show ?thesis using False Suc.IH unfolding step Let_def
      by presburger
  qed
qed

lemma find_intersection_spec:
  "find_intersection w1 w2 (length w1 - 1) = spec_overlap w1 w2"
proof -
  have "[1..<Suc (length w1 - 1)] = [1..<length w1]"
    by (cases w1) simp_all
  then show ?thesis
    unfolding find_intersection_filter spec_overlap_def by simp
qed

subsection \<open>Merged tokens\<close>

lemma merge_tokens_result:
  assumes "tokens a \<noteq> []"
    and w1_def: "w1 = butlast (tl (tokens a))" and w2_def: "w2 = butlast (tl (tokens b))"
  shows "merge_tokens a b =
     Inr ([hd (tokens a)] @ w1 @ drop (spec_overlap w1 w2) w2 @ [last (tokens a)],
          merge_char_mapping (spec_overlap w1 w2) (int (length w1) - int (spec_overlap w1 w2))
            (token2char_start a) (token2char_start b),
          merge_char_mapping (spec_overlap w1 w2) (int (length w1) - int (spec_overlap w1 w2))
            (token2char_end a) (token2char_end b))"
proof -
  have k: "find_intersection w1 w2 (length w1 - 1) = spec_overlap w1 w2"
    by (rule find_intersection_spec)
  show ?thesis
    unfolding merge_tokens_def py_slice_inner Let_def w1_def [symmetric] w2_def [symmetric] k
      py_slice_from
    using assms by (simp add: py_index_first py_index_last)
qed

lemma merge_tokens_final:
  assumes "tokens a \<noteq> []"
  shows "map_sum id fst (merge_tokens a b) =
     Inr ([hd (tokens a)] @ butlast (tl (tokens a))
          @ drop (spec_overlap (butlast (tl (tokens a))) (butlast (tl (tokens b))))
              (butlast (tl (tokens b)))
          @ [last (tokens a)])"
  by (simp add: merge_tokens_result [OF assms refl refl])

subsection \<open>Dictionaries\<close>

lemma map_of_dict_update:
  "map_of (dict_update d other) = map_of d ++ map_of (rev other)"
  unfolding dict_update_def
proof (induction other arbitrary: d)
  case Nil
  show ?case by simp
next
  case (Cons p other)
  obtain k v where p: "p = (k, v)" by (cases p)
  show ?case
    unfolding p
    by (simp add: Cons.IH AList.update_conv' map_add_upd_left fun_eq_iff map_add_def
        split: option.splits)
qed

lemma map_of_rev_distinct: "distinct (map fst xs) \<Longrightarrow> map_of (rev xs) = map_of xs"
proof -
  assume d: "distinct (map fst xs)"
  then have "distinct (map fst (rev xs))" by (simp add: rev_map [symmetric])
  then show ?thesis using d map_of_inject_set [of "rev xs" xs] by simp
qed

subsection \<open>Re-keyed maps\<close>

lemma rekey_fold:
  "foldl (\<lambda>final (t, c). if t < int k then final else AList.update (t + shift) c final) init d2 =
   dict_update init (map (\<lambda>(t, c). (t + shift, c)) (filter (\<lambda>(t, c). \<not> t < int k) d2))"
  unfolding dict_update_def
  by (induction d2 arbitrary: init) (auto split: prod.splits)

lemma merge_char_mapping_remapped:
  assumes d1: "distinct (map fst d1)" and d2: "distinct (map fst d2)"
  shows "remapped k shift d1 d2 (merge_char_mapping k shift d1 d2)"
proof -
  let ?L = "map (\<lambda>(t, c). (t + shift, c)) (filter (\<lambda>(t, c). \<not> t < int k) d2)"
  have keys: "map fst ?L = map (\<lambda>t. t + shift) (map fst (filter (\<lambda>(t, c). \<not> t < int k) d2))"
    by (induction d2) auto
  have "distinct (map fst (filter (\<lambda>(t, c). \<not> t < int k) d2))"
    using d2 by (simp add: distinct_map_filter)
  then have dL: "distinct (map fst ?L)"
    unfolding keys by (simp add: distinct_map inj_on_def)
  have m: "map_of (merge_char_mapping k shift d1 d2) = map_of d1 ++ map_of ?L"
    unfolding merge_char_mapping_def rekey_fold map_of_dict_update
    using map_of_rev_distinct [OF d1] map_of_rev_distinct [OF dL] by simp
  show ?thesis
    unfolding remapped_def m
  proof (intro conjI ballI allI impI)
    fix p assume "p \<in> set d2"
    show "case p of (t, c) \<Rightarrow> int k \<le> t \<longrightarrow> (map_of d1 ++ map_of ?L) (t + shift) = Some c"
    proof (cases p)
      case (Pair t c)
      { assume "int k \<le> t"
        then have "(t + shift, c) \<in> set ?L" using \<open>p \<in> set d2\<close> Pair by force
        then have "map_of ?L (t + shift) = Some c" using dL by (rule map_of_is_SomeI [rotated])
      }
      then show ?thesis using Pair by simp
    qed
  next
    fix j assume "\<forall>(t, c) \<in> set d2. int k \<le> t \<longrightarrow> t + shift \<noteq> j"
    then have "j \<notin> fst ` set ?L" by force
    then have "map_of ?L j = None" by (simp add: map_of_eq_None_iff)
    then show "(map_of d1 ++ map_of ?L) j = map_of d1 j" by (simp add: map_add_def)
  qed
qed

lemma merge_word_mapping_entries:
  "merge_word_mapping k shift o1 o2 = merge_char_mapping k shift (entries o1) (entries o2)"
  by (simp add: merge_word_mapping_def merge_char_mapping_def entries_def)

lemma merge_words_result:
  "merge_words a b =
     (words a @ drop (spec_overlap (words a) (words b)) (words b),
      merge_char_mapping (spec_overlap (words a) (words b))
        (int (length (words a)) - int (spec_overlap (words a) (words b)))
        (entries (token2word_start a)) (entries (token2word_start b)),
      merge_char_mapping (spec_overlap (words a) (words b))
        (int (length (words a)) - int (spec_overlap (words a) (words b)))
        (entries (token2word_end a)) (entries (token2word_end b)))"
  unfolding merge_words_def Let_def find_intersection_spec py_slice_from merge_word_mapping_entries
  by simp

lemma merge_tokens_Inr_nonempty: "merge_tokens a b = Inr r \<Longrightarrow> tokens a \<noteq> []"
  by (auto simp: merge_tokens_def py_index_empty Let_def)

subsection \<open>The merged sample\<close>

lemma merge_window_pair_Inr:
  assumes "merge_window_pair so a b h = (Inr m, h')"
  shows "pair_preconditions a b = None"
    and "merge_tokens a b = Inr (tokens m, token2char_start m, token2char_end m)"
    and "merge_words a b = (words m, entries (token2word_start m), entries (token2word_end m))"
    and "merge_window_labels a b = Inr (window_labels m)"
    and "\<exists>sp pp tr tp. predicted_spans m = Some sp \<and> predicted_spans_probs m = Some pp
           \<and> predicted_triples m = Some tr \<and> predicted_triples_probs m = Some tp
           \<and> merge_predictions a b = Inr (sp, pp, tr, tp)"
    and "doc_id m = doc_id a" and "offset m = offset b"
  using assms
  by (auto simp: merge_window_pair_def entries_def split: option.splits sum.splits prod.splits)

lemma merge_window_pair_succeeds:
  assumes "pair_preconditions a b = None" and "tokens a \<noteq> []"
    and "merge_window_labels a b = Inr l" and "merge_predictions a b = Inr r"
  shows "\<exists>m h'. merge_window_pair so a b h = (Inr m, h')"
  using assms merge_tokens_result [OF assms(2) refl refl, of b]
  by (simp add: merge_window_pair_def split: prod.splits)

lemma marked_run:
  "\<exists>m h'. merge_window_pair given_order marked_a marked_b [] = (Inr m, h')"
  by (rule merge_window_pair_succeeds)
    (simp_all add: pair_preconditions_def marked_a_def marked_b_def empty_sample_def
      merge_window_labels_def merge_predictions_def)

text \<open>
  Claim C1. When \<^verbatim>\<open>a.tokens\<close> is not empty, \<^verbatim>\<open>_merge_tokens\<close> returns the tokens
  \<^verbatim>\<open>[a.tokens[0]] + a.tokens[1:-1] + b.tokens[1:-1][k:] + [a.tokens[-1]]\<close> where \<open>k\<close> is
  the overlap of the specification: the largest \<open>k\<close> in \<open>1, ..., len(a.tokens[1:-1]) - 1\<close>
  with the last \<open>k\<close> content tokens of \<open>a\<close> equal to the first \<open>k\<close> of \<open>b\<close>, or \<open>0\<close>.
  They are the tokens of the merged window of every pairwise merge that returns. For
  the tokens \<^verbatim>\<open>[CLS, the, cat, sat, SEP]\<close> and \<^verbatim>\<open>[CLS, cat, sat, down, SEP]\<close> the result is
  \<^verbatim>\<open>[CLS, the, cat, sat, down, SEP]\<close>, whatever the two markers are.
\<close>

theorem merge_tokens_overlap:
  "(tokens a \<noteq> [] \<longrightarrow>
      map_sum id fst (merge_tokens a b) =
        Inr ([hd (tokens a)] @ content (tokens a)
             @ drop (spec_overlap (content (tokens a)) (content (tokens b))) (content (tokens b))
             @ [last (tokens a)]))
   \<and> (merge_window_pair so a b h = (Inr m, h') \<longrightarrow>
        tokens m =
          [hd (tokens a)] @ content (tokens a)
          @ drop (spec_overlap (content (tokens a)) (content (tokens b))) (content (tokens b))
          @ [last (tokens a)])
   \<and> (tokens a = [cls, ''the'', ''cat'', ''sat'', sep]
        \<and> tokens b = [cls, ''cat'', ''sat'', ''down'', sep] \<longrightarrow>
      map_sum id fst (merge_tokens a b) =
        Inr [cls, ''the'', ''cat'', ''sat'', ''down'', sep])"
proof (intro conjI impI)
  assume "tokens a \<noteq> []"
  then show "map_sum id fst (merge_tokens a b) =
        Inr ([hd (tokens a)] @ content (tokens a)
             @ drop (spec_overlap (content (tokens a)) (content (tokens b))) (content (tokens b))
             @ [last (tokens a)])"
    unfolding content_def by (rule merge_tokens_final)
next
  assume run: "merge_window_pair so a b h = (Inr m, h')"
  note t = merge_window_pair_Inr(2) [OF run]
  have ne: "tokens a \<noteq> []"
    using t by (rule merge_tokens_Inr_nonempty)
  show "tokens m =
          [hd (tokens a)] @ content (tokens a)
          @ drop (spec_overlap (content (tokens a)) (content (tokens b))) (content (tokens b))
          @ [last (tokens a)]"
    using t merge_tokens_final [OF ne, of b] unfolding content_def by simp
next
  assume ex: "tokens a = [cls, ''the'', ''cat'', ''sat'', sep]
        \<and> tokens b = [cls, ''cat'', ''sat'', ''down'', sep]"
  then have ne: "tokens a \<noteq> []" by auto
  have k: "spec_overlap [''the'', ''cat'', ''sat''] [''cat'', ''sat'', ''down''] = 2"
    by (simp add: spec_overlap_def upt_rec)
  show "map_sum id fst (merge_tokens a b) =
        Inr [cls, ''the'', ''cat'', ''sat'', ''down'', sep]"
    unfolding merge_tokens_final [OF ne] using ex by (simp add: k)
qed

theorem merge_tokens_overlap_witness:
  "tokens marked_a = [''[CLS]'', ''the'', ''cat'', ''sat'', ''[SEP]'']
   \<and> tokens marked_b = [''[CLS]'', ''cat'', ''sat'', ''down'', ''[SEP]'']
   \<and> spec_overlap (content (tokens marked_a)) (content (tokens marked_b)) = 2
   \<and> map_sum id fst (merge_tokens marked_a marked_b) =
      Inr [''[CLS]'', ''the'', ''cat'', ''sat'', ''down'', ''[SEP]'']
   \<and> (\<exists>m h'. merge_window_pair given_order marked_a marked_b [] = (Inr m, h')
         \<and> tokens m = [''[CLS]'', ''the'', ''cat'', ''sat'', ''down'', ''[SEP]''])"
proof -
  obtain m h' where run: "merge_window_pair given_order marked_a marked_b [] = (Inr m, h')"
    using marked_run by blast
  have ta: "tokens marked_a = [''[CLS]'', ''the'', ''cat'', ''sat'', ''[SEP]'']"
    and tb: "tokens marked_b = [''[CLS]'', ''cat'', ''sat'', ''down'', ''[SEP]'']"
    by (simp_all add: marked_a_def marked_b_def empty_sample_def)
  have k: "spec_overlap (content (tokens marked_a)) (content (tokens marked_b)) = 2"
    unfolding ta tb by (simp add: spec_overlap_def content_def upt_rec)
  note t = merge_tokens_overlap [of marked_a marked_b given_order "[]" m h' "''[CLS]''" "''[SEP]''"]
  from t ta tb have "map_sum id fst (merge_tokens marked_a marked_b) =
      Inr [''[CLS]'', ''the'', ''cat'', ''sat'', ''down'', ''[SEP]'']"
    by blast
  moreover from t run have "tokens m =
          [hd (tokens marked_a)] @ content (tokens marked_a)
          @ drop (spec_overlap (content (tokens marked_a)) (content (tokens marked_b)))
              (content (tokens marked_b))
          @ [last (tokens marked_a)]"
    by blast
  then have "tokens m = [''[CLS]'', ''the'', ''cat'', ''sat'', ''down'', ''[SEP]'']"
    unfolding k unfolding ta tb by (simp add: content_def)
  ultimately show ?thesis using ta tb k run by blast
qed

text \<open>
  Claim C3, as the code has it. In a pairwise merge that returns, with dictionaries for
  the maps of both windows: for the token maps (overlap and length taken on
  \<^verbatim>\<open>tokens[1:-1]\<close>) and for the word maps (taken on \<^verbatim>\<open>words\<close>), every entry of \<open>b\<close> with
  index \<open>t \<ge> k\<close> is in the merged map under \<open>t + (len(a_content) - k)\<close>, and the merged
  map agrees with the map of \<open>a\<close> on every key that no such entry lands on: the entries
  of \<open>b\<close> with \<open>t < k\<close> are dropped, and an entry of \<open>a\<close> is kept unless a re-keyed entry
  of \<open>b\<close> has its key, in which case the entry of \<open>b\<close> replaces it.
\<close>

theorem merge_window_pair_remaps:
  assumes "merge_window_pair so a b h = (Inr m, h')"
    and "well_formed_maps a" and "well_formed_maps b"
  shows
    "(let kt = spec_overlap (content (tokens a)) (content (tokens b));
          st = int (length (content (tokens a))) - int kt;
          kw = spec_overlap (words a) (words b);
          sw = int (length (words a)) - int kw
      in remapped kt st (token2char_start a) (token2char_start b) (token2char_start m)
         \<and> remapped kt st (token2char_end a) (token2char_end b) (token2char_end m)
         \<and> remapped kw sw (entries (token2word_start a)) (entries (token2word_start b))
               (entries (token2word_start m))
         \<and> remapped kw sw (entries (token2word_end a)) (entries (token2word_end b))
               (entries (token2word_end m)))"
proof -
  note run = merge_window_pair_Inr [OF assms(1)]
  have ne: "tokens a \<noteq> []"
    using run(2) by (rule merge_tokens_Inr_nonempty)
  have t: "token2char_start m =
        merge_char_mapping (spec_overlap (content (tokens a)) (content (tokens b)))
          (int (length (content (tokens a)))
             - int (spec_overlap (content (tokens a)) (content (tokens b))))
          (token2char_start a) (token2char_start b)"
     "token2char_end m =
        merge_char_mapping (spec_overlap (content (tokens a)) (content (tokens b)))
          (int (length (content (tokens a)))
             - int (spec_overlap (content (tokens a)) (content (tokens b))))
          (token2char_end a) (token2char_end b)"
    using run(2) merge_tokens_result [OF ne refl refl, of b] by (simp_all add: content_def)
  have w: "entries (token2word_start m) =
        merge_char_mapping (spec_overlap (words a) (words b))
          (int (length (words a)) - int (spec_overlap (words a) (words b)))
          (entries (token2word_start a)) (entries (token2word_start b))"
     "entries (token2word_end m) =
        merge_char_mapping (spec_overlap (words a) (words b))
          (int (length (words a)) - int (spec_overlap (words a) (words b)))
          (entries (token2word_end a)) (entries (token2word_end b))"
    using run(3) merge_words_result [of a b] by simp_all
  show ?thesis
    unfolding Let_def t w
    using assms(2,3) by (simp add: well_formed_maps_def is_dict_def merge_char_mapping_remapped)
qed

theorem merge_window_pair_remaps_witness:
  "well_formed_maps marked_a \<and> well_formed_maps marked_b
   \<and> spec_overlap (content (tokens marked_a)) (content (tokens marked_b)) = 2
   \<and> (\<exists>m h'. merge_window_pair given_order marked_a marked_b [] = (Inr m, h')
         \<and> remapped 2 1 (token2char_start marked_a) (token2char_start marked_b)
               (token2char_start m)
         \<and> map_of (token2char_start m) 5 = Some 16)"
proof -
  obtain m h' where run: "merge_window_pair given_order marked_a marked_b [] = (Inr m, h')"
    using marked_run by blast
  have wa: "well_formed_maps marked_a" and wb: "well_formed_maps marked_b"
    by (simp_all add: well_formed_maps_def is_dict_def entries_def marked_a_def marked_b_def
        empty_sample_def)
  have k: "spec_overlap (content (tokens marked_a)) (content (tokens marked_b)) = 2"
    by (simp add: spec_overlap_def content_def marked_a_def marked_b_def upt_rec)
  have len: "int (length (content (tokens marked_a))) - 2 = 1"
    by (simp add: content_def marked_a_def)
  from merge_window_pair_remaps [OF run wa wb]
  have r: "remapped 2 1 (token2char_start marked_a) (token2char_start marked_b)
             (token2char_start m)"
    unfolding Let_def k using len by simp
  have "(4, 16) \<in> set (token2char_start marked_b)"
    by (simp add: marked_b_def)
  with r have "map_of (token2char_start m) (4 + 1) = Some 16"
    unfolding remapped_def by fastforce
  with run wa wb k r show ?thesis by auto
qed

text \<open>
  The claim as stated fails: \<open>marked_a\<close> maps the key \<open>4\<close> to \<open>11\<close>, the entry
  \<open>(3, 12)\<close> of \<open>marked_b\<close> is re-keyed to \<open>3 + (3 - 2) = 4\<close>, and the merged map has
  \<open>12\<close> under \<open>4\<close>: on a key collision the entry of \<open>b\<close> wins.
\<close>

theorem a_entry_overwritten:
  "map_of (token2char_start marked_a) 4 = Some 11
   \<and> (3, 12) \<in> set (token2char_start marked_b)
   \<and> map_sum id (\<lambda>m. map_of (token2char_start m) 4)
        (fst (merge_window_pair given_order marked_a marked_b [])) = Inr (Some 12)"
  by code_simp

subsection \<open>Precondition violations\<close>

text \<open>
  Claim C9. \<^verbatim>\<open>create_windows\<close> raises \<^verbatim>\<open>AssertionError\<close> when mentions are supplied and
  their number differs from the number of documents (of the normalised list); the
  pairwise merge raises \<^verbatim>\<open>AssertionError\<close>, before it has written anything to the heap,
  when both windows carry \<^verbatim>\<open>doc_id\<close> and the two differ, and when both carry
  \<^verbatim>\<open>offset\<close> and \<^verbatim>\<open>a.offset >= b.offset\<close>.
\<close>

theorem precondition_violations_fail:
  "(mentions = Some ms \<and> length ms \<noteq> length (normalize_documents docs is_split_into_words) \<longrightarrow>
      fst (create_windows tokenize split sp docs window_size_arg stride max_length topic
             is_split_into_words mentions
           :: (error + ('p, 'q) RelikReaderSample list \<times> ('p, 'q) RelikReaderSample list)
              \<times> splitter)
        = Inl AssertionError)
   \<and> (doc_id a = Some da \<and> doc_id b = Some db \<and> da \<noteq> db \<longrightarrow>
        merge_window_pair so a b h = (Inl AssertionError, h))
   \<and> (offset a = Some oa \<and> offset b = Some ob \<and> oa \<ge> ob \<longrightarrow>
        merge_window_pair so a b h = (Inl AssertionError, h))"
  by (auto simp: create_windows_def Let_def merge_window_pair_def pair_preconditions_def)

theorem precondition_violations_fail_witness:
  "length [[[0, 3]], [[4, 7]]] \<noteq> length (normalize_documents (One_str ''the cat'') False)
   \<and> fst (create_windows space_tokenizer window_splitter example_splitter (One_str ''the cat'')
             None None None None False (Some [[[0, 3]], [[4, 7]]])
           :: (error + (int, int) RelikReaderSample list \<times> (int, int) RelikReaderSample list)
              \<times> splitter)
        = Inl AssertionError
   \<and> merge_window_pair given_order (marked_a\<lparr>doc_id := Some 0\<rparr>) (marked_b\<lparr>doc_id := Some 1\<rparr>) []
        = (Inl AssertionError, [])
   \<and> merge_window_pair given_order (marked_a\<lparr>offset := Some 4\<rparr>) (marked_b\<lparr>offset := Some 4\<rparr>) []
        = (Inl AssertionError, [])"
  using precondition_violations_fail
    [of "Some [[[0, 3]], [[4, 7]]]" "[[[0, 3]], [[4, 7]]]" "One_str ''the cat''" False
        space_tokenizer window_splitter example_splitter None None None None
        "marked_a\<lparr>doc_id := Some 0\<rparr>" 0 "marked_b\<lparr>doc_id := Some 1\<rparr>" 1 given_order "[]",
     where ?'p = int and ?'q = int]
    precondition_violations_fail
    [of None "[]" "One_str ''the cat''" False
        space_tokenizer window_splitter example_splitter None None None None
        "marked_a\<lparr>offset := Some 4\<rparr>" 0 "marked_b\<lparr>offset := Some 4\<rparr>" 1 given_order "[]" 4 4,
     where ?'p = int and ?'q = int]
  by (simp add: normalize_documents_def)

subsection \<open>The windows that are constructed\<close>

lemma window_loop_samples:
  "window_loop hm d doc t m n wins dw bl =
     (case map_err (\<lambda>(k, w). window_sample d (int k) doc t m w) (List.enumerate n wins) of
        Inl e \<Rightarrow> Inl e
      | Inr ss \<Rightarrow> Inr (dw @ filter (\<lambda>s. \<not> routed_blank hm s) ss,
                       bl @ filter (routed_blank hm) ss))"
proof (induction wins arbitrary: n dw bl)
  case Nil
  show ?case by simp
next
  case (Cons w wins)
  show ?case
  proof (cases "window_sample d (int n) doc t m w :: error + ('a, 'b) RelikReaderSample")
    case (Inl e)
    then show ?thesis by simp
  next
    case (Inr s)
    show ?thesis
    proof (cases "routed_blank hm s")
      case True
      have step: "window_loop hm d doc t m n (w # wins) dw bl =
          window_loop hm d doc t m (Suc n) wins dw (bl @ [s])"
        using Inr True by (simp add: routed_blank_def)
      show ?thesis unfolding step Cons.IH using Inr True
        by (simp split: sum.splits)
    next
      case False
      have step: "window_loop hm d doc t m n (w # wins) dw bl =
          window_loop hm d doc t m (Suc n) wins (dw @ [s]) bl"
        using Inr False by (auto simp: routed_blank_def)
      show ?thesis unfolding step Cons.IH using Inr False
        by (simp split: sum.splits)
    qed
  qed
qed

lemma doc_loop_samples:
  "doc_loop split sp ml hm d its t wd bl =
     (case doc_samples split sp ml d its t of
        Inl e \<Rightarrow> Inl e
      | Inr ss \<Rightarrow> Inr (wd @ filter (\<lambda>s. \<not> routed_blank hm s) ss,
                       bl @ filter (routed_blank hm) ss))"
proof (induction its arbitrary: d t wd bl)
  case Nil
  show ?case by simp
next
  case (Cons it its)
  obtain doc toks m where it: "it = (doc, toks, m)" by (cases it) auto
  show ?case
    unfolding it
    by (simp add: Cons.IH window_loop_samples Let_def split: sum.splits)
qed

lemma create_windows_routes:
  assumes "create_windows tokenize split sp docs wsa stride ml topic isw mentions
             = (Inr (primary, blank), sp')"
  shows "\<exists>all. constructed_windows tokenize split sp docs wsa stride ml topic isw mentions
                 = Inr all
           \<and> primary = filter (\<lambda>s. \<not> routed_blank (mentions \<noteq> None) s) all
           \<and> blank = filter (routed_blank (mentions \<noteq> None)) all"
  using assms
  by (auto simp: create_windows_def constructed_windows_def Let_def doc_loop_samples
      split: option.splits if_splits sum.splits)


lemma map_err_mem:
  "map_err f xs = Inr ys \<Longrightarrow> y \<in> set ys \<Longrightarrow> \<exists>x \<in> set xs. f x = Inr y"
proof (induction xs arbitrary: ys)
  case Nil
  then show ?case by simp
next
  case (Cons x xs)
  then show ?case by (auto split: sum.splits)
qed

lemma doc_samples_mem:
  assumes "doc_samples split sp ml d its t = Inr all" and "s \<in> set all"
  shows "\<exists>doc toks ments t' d' n win.
           (doc, toks, ments) \<in> set its \<and> win \<in> set (split sp toks ml)
           \<and> window_sample d' n doc t' ments win = Inr s"
  using assms
proof (induction its arbitrary: d t all)
  case Nil
  then show ?case by simp
next
  case (Cons it its)
  obtain doc toks m where it: "it = (doc, toks, m)" by (cases it) auto
  define t' where "t' = (case t of
                      None \<Rightarrow> Some (if length toks > 0 then Topic_token (toks ! 0)
                                     else Topic_str [])
                    | Some x \<Rightarrow> Some x)"
  from Cons.prems(1) obtain ss others where
    ss: "map_err (\<lambda>(n, window). window_sample (int d) (int n) doc t' m window)
           (List.enumerate 0 (split sp toks ml)) = Inr ss"
    and others: "doc_samples split sp ml (Suc d) its t' = Inr others"
    and all: "all = ss @ others"
    unfolding it by (auto simp: Let_def t'_def split: sum.splits)
  from Cons.prems(2) all consider "s \<in> set ss" | "s \<in> set others" by auto
  then show ?case
  proof cases
    case 1
    from map_err_mem [OF ss 1] obtain n win where
      "(n, win) \<in> set (List.enumerate 0 (split sp toks ml))"
      "window_sample (int d) (int n) doc t' m win = Inr s"
      by auto
    then have "win \<in> set (split sp toks ml)"
      by (auto simp: in_set_enumerate_eq)
    then show ?thesis
      using \<open>window_sample (int d) (int n) doc t' m win = Inr s\<close> unfolding it
      by (metis list.set_intros(1))
  next
    case 2
    from Cons.IH [OF others 2] show ?thesis
      by (metis list.set_intros(2))
  qed
qed

lemma create_windows_provenance:
  assumes "create_windows tokenize split sp docs wsa stride ml topic isw mentions
             = (Inr (primary, blank), sp')"
    and "s \<in> set primary \<union> set blank"
  shows "\<exists>doc toks ments t d n win.
           (doc, toks, ments) \<in> set (doc_iter (normalize_documents docs isw)
                                        (tokenize (normalize_documents docs isw) isw) mentions)
           \<and> win \<in> set (split sp' toks ml)
           \<and> window_sample d n doc t ments win = Inr s"
proof -
  from create_windows_routes [OF assms(1)] obtain all where
    all: "constructed_windows tokenize split sp docs wsa stride ml topic isw mentions = Inr all"
    and "primary = filter (\<lambda>s. \<not> routed_blank (mentions \<noteq> None) s) all"
    and "blank = filter (routed_blank (mentions \<noteq> None)) all"
    by blast
  with assms(2) have mem: "s \<in> set all" by auto
  have sp': "sp' = set_splitter_params sp wsa stride"
    using assms(1) by (auto simp: create_windows_def Let_def split: option.splits if_splits)
  show ?thesis
    using doc_samples_mem [OF all [unfolded constructed_windows_def Let_def] mem]
    unfolding sp' by blast
qed

lemma window_sample_fields:
  assumes "window_sample d n doc t ments win = Inr (s :: ('p, 'q) RelikReaderSample)"
  shows "win \<noteq> []"
    and "tokens s = map tok_text win" and "words s = map tok_text win"
    and "offset s = Some (tok_idx (hd win))"
    and "\<exists>sp. spans s = Some sp
           \<and> window_spans (tok_idx (hd win))
                (tok_idx (last win) + int (length (tok_text (last win)))) ments = Inr sp"
    and "token2char_start s =
           dict_update [] (map (\<lambda>(i, w). (int i, tok_idx w)) (List.enumerate 0 win))"
    and "token2char_end s =
           dict_update []
             (map (\<lambda>(i, w). (int i, tok_idx w + int (length (tok_text w))))
                (List.enumerate 0 win))"
    and "char2token_start s =
           Some (dict_update [] (map (\<lambda>(i, w). (tok_idx w, tok_i w)) (List.enumerate 0 win)))"
    and "char2token_end s =
           Some (dict_update []
             (map (\<lambda>(i, w). (tok_idx w + int (length (tok_text w)), tok_i w))
                (List.enumerate 0 win)))"
    and "doc_topic s = t" and "doc_id s = Some d" and "window_id s = Some n"
proof -
  show ne: "win \<noteq> []"
    using assms by (auto simp: window_sample_def py_index_empty)
  note r = assms [unfolded window_sample_def py_index_first [OF ne] py_index_last [OF ne]
      Let_def, simplified]
  show "tokens s = map tok_text win" "words s = map tok_text win"
    "offset s = Some (tok_idx (hd win))"
    "\<exists>sp. spans s = Some sp
           \<and> window_spans (tok_idx (hd win))
                (tok_idx (last win) + int (length (tok_text (last win)))) ments = Inr sp"
    "token2char_start s =
           dict_update [] (map (\<lambda>(i, w). (int i, tok_idx w)) (List.enumerate 0 win))"
    "token2char_end s =
           dict_update []
             (map (\<lambda>(i, w). (int i, tok_idx w + int (length (tok_text w))))
                (List.enumerate 0 win))"
    "char2token_start s =
           Some (dict_update [] (map (\<lambda>(i, w). (tok_idx w, tok_i w)) (List.enumerate 0 win)))"
    "char2token_end s =
           Some (dict_update []
             (map (\<lambda>(i, w). (tok_idx w + int (length (tok_text w)), tok_i w))
                (List.enumerate 0 win)))"
    "doc_topic s = t" "doc_id s = Some d" "window_id s = Some n"
    using r by (auto split: sum.splits)
qed

subsection \<open>What every created window has\<close>

lemma doc_iter_tokens:
  "(doc, toks, ments) \<in> set (doc_iter dl dt mentions) \<Longrightarrow> toks \<in> set dt"
proof -
  assume "(doc, toks, ments) \<in> set (doc_iter dl dt mentions)"
  then obtain xs where "(doc, toks, ments) \<in> set (zip dl (zip dt xs))"
    by (auto simp: doc_iter_def split: option.splits)
  then have "(toks, ments) \<in> set (zip dt xs)" by (rule set_zip_rightD)
  then show ?thesis by (rule set_zip_leftD)
qed

lemma routed_blank_cases:
  "routed_blank True = (\<lambda>s. spans s = Some [])" "routed_blank False = (\<lambda>s. False)"
  by (simp_all add: fun_eq_iff routed_blank_def)

lemma example_call_runs:
  "\<exists>w0 w1 sp'. example_call = (Inr ([w0], [w1]), sp')
      \<and> tokens w0 = [''the'', ''cat'', ''sat''] \<and> tokens w1 = [''cat'', ''sat'', ''down'']
      \<and> spans w0 = Some [[0, 3]] \<and> spans w1 = Some []"
proof -
  have ev: "map_sum id (\<lambda>(p, b). (map tokens p, map spans p, map tokens b, map spans b))
              (fst example_call)
            = Inr ([[''the'', ''cat'', ''sat'']], [Some [[0, 3]]],
                   [[''cat'', ''sat'', ''down'']], [Some []])"
    by code_simp
  obtain r sp' where x: "example_call = (r, sp')" by (cases example_call)
  from ev [unfolded x] obtain p b where r: "r = Inr (p, b)" by (cases r) auto
  from ev [unfolded x r] have "map tokens p = [[''the'', ''cat'', ''sat'']]" "map spans p = [Some [[0, 3]]]"
    "map tokens b = [[''cat'', ''sat'', ''down'']]" "map spans b = [Some []]"
    by simp_all
  then obtain w0 w1 where "p = [w0]" "b = [w1]" "tokens w0 = [''the'', ''cat'', ''sat'']"
    "tokens w1 = [''cat'', ''sat'', ''down'']" "spans w0 = Some [[0, 3]]" "spans w1 = Some []"
    by (auto simp: map_eq_Cons_conv)
  with x r show ?thesis by blast
qed

text \<open>
  Claim C10. Every window \<^verbatim>\<open>create_windows\<close> returns, in either output, has
  \<^verbatim>\<open>tokens\<close> equal to \<^verbatim>\<open>words\<close>, and both are the texts of the tokens of one group
  the splitter made of one tokenized document: nothing is put before or after them, so
  the first and the last element of \<^verbatim>\<open>tokens\<close> are the texts of the first and the last
  token of the group.
\<close>

theorem created_tokens_are_words:
  assumes "create_windows tokenize split sp docs wsa stride ml topic isw mentions
             = (Inr (primary, blank), sp')"
    and "s \<in> set primary \<union> set blank"
  shows "tokens s = words s
     \<and> (\<exists>toks win. toks \<in> set (tokenize (normalize_documents docs isw) isw)
            \<and> win \<in> set (split sp' toks ml) \<and> win \<noteq> []
            \<and> tokens s = map tok_text win
            \<and> hd (tokens s) = tok_text (hd win) \<and> last (tokens s) = tok_text (last win))"
proof -
  from create_windows_provenance [OF assms] obtain doc toks ments t d n win where
    it: "(doc, toks, ments) \<in> set (doc_iter (normalize_documents docs isw)
                                        (tokenize (normalize_documents docs isw) isw) mentions)"
    and win: "win \<in> set (split sp' toks ml)"
    and s: "window_sample d n doc t ments win = Inr s"
    by blast
  note f = window_sample_fields [OF s]
  have "toks \<in> set (tokenize (normalize_documents docs isw) isw)"
    using it by (rule doc_iter_tokens)
  moreover have "hd (tokens s) = tok_text (hd win)" "last (tokens s) = tok_text (last win)"
    using f(1,2) by (simp_all add: hd_map last_map)
  ultimately show ?thesis using win f(1,2,3) by auto
qed

theorem created_tokens_are_words_witness:
  "\<exists>primary blank sp' s.
     example_call = (Inr (primary, blank), sp') \<and> s \<in> set primary \<union> set blank
     \<and> tokens s = [''cat'', ''sat'', ''down''] \<and> tokens s = words s"
proof -
  from example_call_runs obtain w0 w1 sp' where
    run: "example_call = (Inr ([w0], [w1]), sp')" and t: "tokens w1 = [''cat'', ''sat'', ''down'']"
    by blast
  have mem: "w1 \<in> set [w0] \<union> set [w1]" by simp
  from created_tokens_are_words [OF run [unfolded example_call_def] mem]
  have "tokens w1 = words w1" by blast
  with run t mem show ?thesis by blast
qed

text \<open>
  Claim C5. When \<^verbatim>\<open>create_windows\<close> returns, the windows it constructed are
  \<open>constructed_windows\<close>; with mentions supplied the blank output is those of them
  whose \<^verbatim>\<open>spans\<close> is empty and the primary output is the others, in the order of
  construction; without mentions the primary output is all of them and the blank
  output is empty.
\<close>

theorem create_windows_routing:
  assumes "create_windows tokenize split sp docs wsa stride ml topic isw mentions
             = (Inr (primary, blank), sp')"
  shows "\<exists>all. constructed_windows tokenize split sp docs wsa stride ml topic isw mentions
                 = Inr all
           \<and> (mentions \<noteq> None \<longrightarrow>
                 blank = filter (\<lambda>s. spans s = Some []) all
                 \<and> primary = filter (\<lambda>s. spans s \<noteq> Some []) all)
           \<and> (mentions = None \<longrightarrow> primary = all \<and> blank = [])"
  using create_windows_routes [OF assms] by (cases mentions) (auto simp: routed_blank_cases)

theorem create_windows_routing_witness:
  "\<exists>w0 w1 sp' all.
     example_call = (Inr ([w0], [w1]), sp')
     \<and> spans w0 = Some [[0, 3]] \<and> spans w1 = Some []
     \<and> constructed_windows space_tokenizer window_splitter example_splitter
          (One_str ''the cat sat down'') None None None None False (Some [[[0, 3]]]) = Inr all
     \<and> [w1] = filter (\<lambda>s. spans s = Some []) all
     \<and> [w0] = filter (\<lambda>s. spans s \<noteq> Some []) all"
proof -
  from example_call_runs obtain w0 w1 sp' where
    run: "example_call = (Inr ([w0], [w1]), sp')"
    and sp: "spans w0 = Some [[0, 3]]" "spans w1 = Some []"
    by blast
  from create_windows_routing [OF run [unfolded example_call_def]]
  show ?thesis using run sp by auto
qed

subsection \<open>Character and token maps\<close>

lemma map_enumerate_snd: "map (\<lambda>(i, w). f w) (List.enumerate n xs) = map f xs"
  by (induction xs arbitrary: n) simp_all

lemma map_of_index_keys:
  assumes "k < length xs"
  shows "map_of (dict_update [] (map (\<lambda>(i, w). (int i, f w)) (List.enumerate 0 xs))) (int k)
         = Some (f (xs ! k))"
proof -
  let ?L = "map (\<lambda>(i, w). (int i, f w)) (List.enumerate 0 xs)"
  have keys: "map fst ?L = map int [0..<length xs]"
  proof -
    have "map fst ?L = map (int \<circ> fst) (List.enumerate 0 xs)"
      by (simp add: comp_def case_prod_unfold)
    also have "\<dots> = map int (map fst (List.enumerate 0 xs))"
      by (simp only: map_map)
    also have "\<dots> = map int [0..<length xs]"
      by (simp only: map_fst_enumerate) simp
    finally show ?thesis .
  qed
  have d: "distinct (map fst ?L)"
    unfolding keys by (simp add: distinct_map inj_on_def)
  have "(int k, f (xs ! k)) \<in> set ?L"
    using assms by (force simp: in_set_enumerate_eq)
  then have "map_of ?L (int k) = Some (f (xs ! k))"
    using d by simp
  then show ?thesis
    by (simp add: map_of_dict_update map_of_rev_distinct [OF d])
qed

lemma map_of_last_occurrence:
  assumes "k < length xs"
  shows "\<exists>k'. k \<le> k' \<and> k' < length xs \<and> g (xs ! k') = g (xs ! k)
            \<and> (\<forall>j. k' < j \<and> j < length xs \<longrightarrow> g (xs ! j) \<noteq> g (xs ! k))
            \<and> map_of (rev (map (\<lambda>w. (g w, h w)) xs)) (g (xs ! k)) = Some (h (xs ! k'))"
  using assms
proof (induction xs rule: rev_induct)
  case Nil
  then show ?case by simp
next
  case (snoc y xs)
  show ?case
  proof (cases "g y = g ((xs @ [y]) ! k)")
    case True
    have "k \<le> length xs" using snoc.prems by simp
    then show ?thesis using True
      by (intro exI [of _ "length xs"]) auto
  next
    case False
    then have k: "k < length xs"
      using snoc.prems by (cases "k = length xs") auto
    then have nk: "(xs @ [y]) ! k = xs ! k" by (simp add: nth_append)
    from snoc.IH [OF k] obtain k' where
      k': "k \<le> k'" "k' < length xs" "g (xs ! k') = g (xs ! k)"
      "\<forall>j. k' < j \<and> j < length xs \<longrightarrow> g (xs ! j) \<noteq> g (xs ! k)"
      "map_of (rev (map (\<lambda>w. (g w, h w)) xs)) (g (xs ! k)) = Some (h (xs ! k'))"
      by blast
    have "\<forall>j. k' < j \<and> j < length (xs @ [y]) \<longrightarrow> g ((xs @ [y]) ! j) \<noteq> g ((xs @ [y]) ! k)"
      using k'(4) False nk by (auto simp: nth_append)
    then show ?thesis
      using k' False nk
      by (intro exI [of _ k']) (auto simp: nth_append)
  qed
qed

lemma map_of_offset_keys:
  assumes "k < length xs"
  shows "\<exists>k'. k \<le> k' \<and> k' < length xs \<and> g (xs ! k') = g (xs ! k)
            \<and> (\<forall>j. k' < j \<and> j < length xs \<longrightarrow> g (xs ! j) \<noteq> g (xs ! k))
            \<and> map_of (dict_update [] (map (\<lambda>(i, w). (g w, h w)) (List.enumerate 0 xs)))
                 (g (xs ! k)) = Some (h (xs ! k'))"
  using map_of_last_occurrence [OF assms, of g h]
  by (simp add: map_of_dict_update map_enumerate_snd)


lemma last_with_same_distinct:
  "last_with_same g window k k' \<Longrightarrow> distinct (map g window) \<Longrightarrow> k' = k"
  unfolding last_with_same_def
  by (metis distinct_conv_nth le_less_trans length_map nth_map)

text \<open>
  Claim C2, as the code has it. For a window \<^verbatim>\<open>create_windows\<close> returns, made of the
  group \<open>win\<close> of the splitter, and a position \<open>k\<close> of the window:
  \<^verbatim>\<open>token2char_start[k]\<close> is the start offset of the token at \<open>k\<close>, and
  \<^verbatim>\<open>char2token_start\<close> maps that offset to the index \<^verbatim>\<open>i\<close> that the tokenizer gave, in
  the document, to the last token of the window with that start offset: to the
  document index of the token at \<open>k\<close> itself when the start offsets of the window are
  distinct. The same holds for the end offsets and \<^verbatim>\<open>char2token_end\<close>.
\<close>

theorem char_token_roundtrip:
  assumes "create_windows tokenize split sp docs wsa stride ml topic isw mentions
             = (Inr (primary, blank), sp')"
    and "s \<in> set primary \<union> set blank"
  shows "\<exists>toks win. toks \<in> set (tokenize (normalize_documents docs isw) isw)
     \<and> win \<in> set (split sp' toks ml) \<and> tokens s = map tok_text win
     \<and> (\<forall>k<length win.
           map_of (token2char_start s) (int k) = Some (tok_idx (win ! k))
           \<and> map_of (token2char_end s) (int k) = Some (tok_end (win ! k))
           \<and> (\<exists>k'. last_with_same tok_idx win k k'
                 \<and> map_of (entries (char2token_start s)) (tok_idx (win ! k))
                     = Some (tok_i (win ! k')))
           \<and> (\<exists>k'. last_with_same tok_end win k k'
                 \<and> map_of (entries (char2token_end s)) (tok_end (win ! k))
                     = Some (tok_i (win ! k')))
           \<and> (distinct (map tok_idx win) \<longrightarrow>
                 map_of (entries (char2token_start s)) (tok_idx (win ! k))
                   = Some (tok_i (win ! k)))
           \<and> (distinct (map tok_end win) \<longrightarrow>
                 map_of (entries (char2token_end s)) (tok_end (win ! k))
                   = Some (tok_i (win ! k))))"
proof -
  from create_windows_provenance [OF assms] obtain doc toks ments t d n win where
    it: "(doc, toks, ments) \<in> set (doc_iter (normalize_documents docs isw)
                                        (tokenize (normalize_documents docs isw) isw) mentions)"
    and win: "win \<in> set (split sp' toks ml)"
    and s: "window_sample d n doc t ments win = Inr s"
    by blast
  note f = window_sample_fields [OF s]
  have toks: "toks \<in> set (tokenize (normalize_documents docs isw) isw)"
    using it by (rule doc_iter_tokens)
  have "map_of (token2char_start s) (int k) = Some (tok_idx (win ! k))
      \<and> map_of (token2char_end s) (int k) = Some (tok_end (win ! k))
      \<and> (\<exists>k'. last_with_same tok_idx win k k'
            \<and> map_of (entries (char2token_start s)) (tok_idx (win ! k))
                = Some (tok_i (win ! k')))
      \<and> (\<exists>k'. last_with_same tok_end win k k'
            \<and> map_of (entries (char2token_end s)) (tok_end (win ! k))
                = Some (tok_i (win ! k')))
      \<and> (distinct (map tok_idx win) \<longrightarrow>
            map_of (entries (char2token_start s)) (tok_idx (win ! k))
              = Some (tok_i (win ! k)))
      \<and> (distinct (map tok_end win) \<longrightarrow>
            map_of (entries (char2token_end s)) (tok_end (win ! k))
              = Some (tok_i (win ! k)))" if k: "k < length win" for k
  proof -
    have a: "map_of (token2char_start s) (int k) = Some (tok_idx (win ! k))"
      unfolding f(6) by (rule map_of_index_keys [OF k])
    have b: "map_of (token2char_end s) (int k) = Some (tok_end (win ! k))"
      unfolding f(7) tok_end_def by (rule map_of_index_keys [OF k])
    from map_of_offset_keys [OF k, of tok_idx tok_i] have c:
      "\<exists>k'. last_with_same tok_idx win k k'
            \<and> map_of (entries (char2token_start s)) (tok_idx (win ! k))
                = Some (tok_i (win ! k'))"
      unfolding f(8) last_with_same_def entries_def by auto
    from map_of_offset_keys [OF k, of tok_end tok_i] have d:
      "\<exists>k'. last_with_same tok_end win k k'
            \<and> map_of (entries (char2token_end s)) (tok_end (win ! k))
                = Some (tok_i (win ! k'))"
      unfolding f(9) last_with_same_def entries_def tok_end_def by auto
    from c d show ?thesis using a b
      by (metis last_with_same_distinct)
  qed
  with toks win f(2) show ?thesis by blast
qed

theorem char_token_roundtrip_witness:
  "\<exists>primary blank sp' s toks win.
     example_call = (Inr (primary, blank), sp') \<and> s \<in> set primary \<union> set blank
     \<and> win \<in> set (window_splitter sp' toks None)
     \<and> tokens s = [''cat'', ''sat'', ''down''] \<and> tokens s = map tok_text win
     \<and> map_of (token2char_start s) 0 = Some (tok_idx (win ! 0))
     \<and> (\<exists>k'. last_with_same tok_idx win 0 k'
           \<and> map_of (entries (char2token_start s)) (tok_idx (win ! 0)) = Some (tok_i (win ! k')))"
proof -
  from example_call_runs obtain w0 w1 sp' where
    run: "example_call = (Inr ([w0], [w1]), sp')" and t: "tokens w1 = [''cat'', ''sat'', ''down'']"
    by blast
  have mem: "w1 \<in> set [w0] \<union> set [w1]" by simp
  from char_token_roundtrip [OF run [unfolded example_call_def] mem]
  obtain toks win where w: "win \<in> set (window_splitter sp' toks None)"
    "tokens w1 = map tok_text win"
    and all: "\<forall>k<length win.
           map_of (token2char_start w1) (int k) = Some (tok_idx (win ! k))
           \<and> map_of (token2char_end w1) (int k) = Some (tok_end (win ! k))
           \<and> (\<exists>k'. last_with_same tok_idx win k k'
                 \<and> map_of (entries (char2token_start w1)) (tok_idx (win ! k))
                     = Some (tok_i (win ! k')))
           \<and> (\<exists>k'. last_with_same tok_end win k k'
                 \<and> map_of (entries (char2token_end w1)) (tok_end (win ! k))
                     = Some (tok_i (win ! k')))
           \<and> (distinct (map tok_idx win) \<longrightarrow>
                 map_of (entries (char2token_start w1)) (tok_idx (win ! k))
                   = Some (tok_i (win ! k)))
           \<and> (distinct (map tok_end win) \<longrightarrow>
                 map_of (entries (char2token_end w1)) (tok_end (win ! k))
                   = Some (tok_i (win ! k)))"
    by blast
  have "0 < length win" using w(2) t by (cases win) auto
  with all have "map_of (token2char_start w1) (int 0) = Some (tok_idx (win ! 0))
     \<and> (\<exists>k'. last_with_same tok_idx win 0 k'
           \<and> map_of (entries (char2token_start w1)) (tok_idx (win ! 0)) = Some (tok_i (win ! k')))"
    by blast
  with run mem w t show ?thesis by (simp del: set_simps) blast
qed

text \<open>
  The claim as stated fails: in the second window of \<open>example_call\<close>, the token at
  position \<open>0\<close> starts at offset \<open>4\<close>, and \<^verbatim>\<open>char2token_start\<close> maps \<open>4\<close> to \<open>1\<close>,
  the index of that token in the document.
\<close>

theorem roundtrip_is_not_identity:
  "map_sum id
     (\<lambda>(primary, blank).
        map (\<lambda>s. (tokens s, map_of (token2char_start s) 0, map_of (entries (char2token_start s)) 4))
          blank)
     (fst example_call)
   = Inr [([''cat'', ''sat'', ''down''], Some 4, Some 1)]"
  by code_simp

subsection \<open>Mentions of a window\<close>

lemma py_index_0: "py_index m 0 = Inr x \<longleftrightarrow> (\<exists>rest. m = x # rest)"
  by (cases m) (auto simp: py_index_def)

lemma py_index_1: "py_index (x # rest) 1 = Inr y \<longleftrightarrow> (\<exists>rest'. rest = y # rest')"
  by (cases rest) (auto simp: py_index_def)

lemma window_spans_sound:
  "window_spans ws we ms = Inr sps \<Longrightarrow> sp \<in> set sps \<Longrightarrow>
     \<exists>st en rest. sp = [st, en] \<and> (st # en # rest) \<in> set ms
        \<and> ws \<le> st \<and> st < we \<and> ws \<le> en \<and> en \<le> we"
proof (induction ms arbitrary: sps)
  case Nil
  then show ?case by simp
next
  case (Cons m ms)
  from Cons.prems(1) obtain m0 rest where m: "m = m0 # rest"
    by (auto simp: py_index_0 split: sum.splits)
  show ?case
  proof (cases "we > m0 \<and> m0 \<ge> ws")
    case False
    then have "window_spans ws we ms = Inr sps"
      using Cons.prems(1) unfolding m by (auto simp: py_index_0 split: sum.splits)
    from Cons.IH [OF this Cons.prems(2)] show ?thesis by auto
  next
    case True
    then obtain m1 rest' where r: "rest = m1 # rest'"
      using Cons.prems(1) unfolding m
      by (auto simp: py_index_0 py_index_1 split: sum.splits)
    show ?thesis
    proof (cases "we \<ge> m1 \<and> m1 \<ge> ws")
      case False
      then have "window_spans ws we ms = Inr sps"
        using Cons.prems(1) True unfolding m r
        by (auto simp: py_index_0 py_index_1 split: sum.splits)
      from Cons.IH [OF this Cons.prems(2)] show ?thesis by auto
    next
      case in2: True
      then obtain others where o: "window_spans ws we ms = Inr others"
        and sps: "sps = [m0, m1] # others"
        using Cons.prems(1) True unfolding m r
        by (auto simp: py_index_0 py_index_1 split: sum.splits)
      from Cons.prems(2) sps consider "sp = [m0, m1]" | "sp \<in> set others" by auto
      then show ?thesis
      proof cases
        case 1
        then show ?thesis using True in2 unfolding m r by auto
      next
        case 2
        from Cons.IH [OF o 2] show ?thesis by auto
      qed
    qed
  qed
qed

lemma window_spans_complete:
  "window_spans ws we ms = Inr sps \<Longrightarrow> (st # en # rest) \<in> set ms \<Longrightarrow>
     ws \<le> st \<Longrightarrow> st < we \<Longrightarrow> ws \<le> en \<Longrightarrow> en \<le> we \<Longrightarrow> [st, en] \<in> set sps"
proof (induction ms arbitrary: sps)
  case Nil
  then show ?case by simp
next
  case (Cons m ms)
  show ?case
  proof (cases "m = st # en # rest")
    case True
    then show ?thesis using Cons.prems
      by (auto simp: py_index_0 py_index_1 split: sum.splits)
  next
    case False
    then have mem: "(st # en # rest) \<in> set ms" using Cons.prems(2) by simp
    have "\<exists>others. window_spans ws we ms = Inr others \<and> set others \<subseteq> set sps"
      using Cons.prems(1) by (auto split: sum.splits if_splits)
    then obtain others where o: "window_spans ws we ms = Inr others"
      and sub: "set others \<subseteq> set sps"
      by blast
    from Cons.IH [OF o mem Cons.prems(3-6)] sub show ?thesis by auto
  qed
qed


text \<open>
  Claim C4, as the code has it. For a window \<^verbatim>\<open>create_windows\<close> returns, made of the
  group \<open>win\<close> of a document with the mentions \<open>ments\<close>, with
  \<open>window_text_start = tok_idx (hd win)\<close> and \<open>window_text_end = tok_end (last win)\<close>:
  every span of the window is the pair of the first two numbers of a mention of the
  document and has \<open>window_text_start \<le> start < window_text_end\<close> and
  \<open>window_text_start \<le> end \<le> window_text_end\<close>; every mention of the document with
  \<open>window_text_start \<le> start < end \<le> window_text_end\<close> is a span of the window; and no
  pair that begins before the window or ends after it is a span of the window.
\<close>

theorem spans_inside_window:
  assumes "create_windows tokenize split sp docs wsa stride ml topic isw mentions
             = (Inr (primary, blank), sp')"
    and "s \<in> set primary \<union> set blank"
  shows "\<exists>doc toks ments win sps.
       (doc, toks, ments) \<in> set (doc_iter (normalize_documents docs isw)
                                    (tokenize (normalize_documents docs isw) isw) mentions)
     \<and> win \<in> set (split sp' toks ml) \<and> win \<noteq> [] \<and> tokens s = map tok_text win
     \<and> offset s = Some (tok_idx (hd win)) \<and> spans s = Some sps
     \<and> (\<forall>sp \<in> set sps. \<exists>st en rest.
            sp = [st, en] \<and> (st # en # rest) \<in> set ments
            \<and> tok_idx (hd win) \<le> st \<and> st < tok_end (last win)
            \<and> tok_idx (hd win) \<le> en \<and> en \<le> tok_end (last win))
     \<and> (\<forall>st en rest.
            (st # en # rest) \<in> set ments
            \<and> tok_idx (hd win) \<le> st \<and> st < en \<and> en \<le> tok_end (last win) \<longrightarrow>
            [st, en] \<in> set sps)
     \<and> (\<forall>st en. st < tok_idx (hd win) \<or> tok_end (last win) < en \<longrightarrow> [st, en] \<notin> set sps)"
proof -
  from create_windows_provenance [OF assms] obtain doc toks ments t d n win where
    it: "(doc, toks, ments) \<in> set (doc_iter (normalize_documents docs isw)
                                        (tokenize (normalize_documents docs isw) isw) mentions)"
    and win: "win \<in> set (split sp' toks ml)"
    and s: "window_sample d n doc t ments win = Inr s"
    by blast
  note f = window_sample_fields [OF s]
  from f(5) obtain sps where sps: "spans s = Some sps"
    and ws: "window_spans (tok_idx (hd win)) (tok_end (last win)) ments = Inr sps"
    unfolding tok_end_def by blast
  have sound: "\<forall>sp \<in> set sps. \<exists>st en rest.
            sp = [st, en] \<and> (st # en # rest) \<in> set ments
            \<and> tok_idx (hd win) \<le> st \<and> st < tok_end (last win)
            \<and> tok_idx (hd win) \<le> en \<and> en \<le> tok_end (last win)"
    using window_spans_sound [OF ws] by blast
  have complete: "\<forall>st en rest.
            (st # en # rest) \<in> set ments
            \<and> tok_idx (hd win) \<le> st \<and> st < en \<and> en \<le> tok_end (last win) \<longrightarrow>
            [st, en] \<in> set sps"
    using window_spans_complete [OF ws] by force
  have outside: "\<forall>st en. st < tok_idx (hd win) \<or> tok_end (last win) < en \<longrightarrow> [st, en] \<notin> set sps"
    using sound by fastforce
  show ?thesis
    using it win f(1,2,4) sps sound complete outside by blast
qed

theorem spans_inside_window_witness:
  "\<exists>primary blank sp' s doc toks ments win.
     example_call = (Inr (primary, blank), sp') \<and> s \<in> set primary \<union> set blank
     \<and> (doc, toks, ments) \<in> set (doc_iter (normalize_documents (One_str ''the cat sat down'') False)
            (space_tokenizer (normalize_documents (One_str ''the cat sat down'') False) False)
            (Some [[[0, 3]]]))
     \<and> win \<in> set (window_splitter sp' toks None)
     \<and> tokens s = [''the'', ''cat'', ''sat''] \<and> tokens s = map tok_text win
     \<and> spans s = Some [[0, 3]]
     \<and> tok_idx (hd win) \<le> 0 \<and> 3 \<le> tok_end (last win)"
proof -
  from example_call_runs obtain w0 w1 sp' where
    run: "example_call = (Inr ([w0], [w1]), sp')" and t: "tokens w0 = [''the'', ''cat'', ''sat'']"
    and sp: "spans w0 = Some [[0, 3]]"
    by blast
  have mem: "w0 \<in> set [w0] \<union> set [w1]" by simp
  from spans_inside_window [OF run [unfolded example_call_def] mem]
  obtain doc toks ments win sps where
    it: "(doc, toks, ments) \<in> set (doc_iter (normalize_documents (One_str ''the cat sat down'') False)
            (space_tokenizer (normalize_documents (One_str ''the cat sat down'') False) False)
            (Some [[[0, 3]]]))"
    and w: "win \<in> set (window_splitter sp' toks None)" "tokens w0 = map tok_text win"
    and sps: "spans w0 = Some sps"
    and inside: "\<forall>sp \<in> set sps. \<exists>st en rest.
            sp = [st, en] \<and> (st # en # rest) \<in> set ments
            \<and> tok_idx (hd win) \<le> st \<and> st < tok_end (last win)
            \<and> tok_idx (hd win) \<le> en \<and> en \<le> tok_end (last win)"
    by blast
  from sp sps have "[0, 3] \<in> set sps" by simp
  with inside have "tok_idx (hd win) \<le> 0 \<and> 3 \<le> tok_end (last win)" by fastforce
  with run mem it w t sp show ?thesis by (simp del: set_simps) blast
qed

text \<open>
  The claim as stated fails on \<open>straddling_call\<close>: the second window (characters 4 to
  16) has the span \<^verbatim>\<open>[12, 12]\<close>, for which \<open>start < end\<close> is false, and it has the
  span \<^verbatim>\<open>[9, 13]\<close> of the mention that straddles the end of the first window
  (characters 0 to 11).
\<close>

theorem degenerate_and_straddling_mentions:
  "map_sum id
     (\<lambda>(primary, blank).
        (map (\<lambda>s. (offset s, sample_text s, spans s)) primary,
         map (\<lambda>s. (offset s, sample_text s, spans s)) blank))
     (fst straddling_call)
   = Inr ([(Some 4, Some ''cat sat down'', Some [[12, 12], [9, 13]])],
          [(Some 0, Some ''the cat sat'', Some [])])"
  by code_simp

subsection \<open>The topic of a document\<close>

text \<open>
  Claim C7 on two documents without a \<^verbatim>\<open>doc_topic\<close> argument. The window of the second
  document, whose first token is \<^verbatim>\<open>a\<close>, gets the topic of the first document: the
  loop assigns the variable \<^verbatim>\<open>doc_topic\<close> in its first iteration and finds it set in
  the second. The topic is the token object \<^verbatim>\<open>document_tokens[0]\<close>, not its text.
\<close>

theorem doc_topic_of_first_document:
  "map_sum id
     (\<lambda>(primary, blank). map (\<lambda>s. (doc_id s, tokens s, doc_topic s)) primary)
     (fst two_documents_call)
   = Inr [(Some 0, [''the'', ''cat''],
           Some (Topic_token \<lparr>tok_text = ''the'', tok_idx = 0, tok_i = 0\<rparr>)),
          (Some 1, [''a'', ''b''],
           Some (Topic_token \<lparr>tok_text = ''the'', tok_idx = 0, tok_i = 0\<rparr>))]"
  by code_simp

subsection \<open>Merged predictions\<close>

lemma list_index_Inr:
  "list_index xs x = Inr n \<Longrightarrow> n < length xs \<and> xs ! n = x"
proof (induction xs arbitrary: n)
  case Nil
  then show ?case by simp
next
  case (Cons y ys)
  then show ?case by (auto split: if_splits sum.splits)
qed

lemma list_index_distinct:
  "distinct xs \<Longrightarrow> n < length xs \<Longrightarrow> list_index xs (xs ! n) = Inr n"
proof (induction xs arbitrary: n)
  case Nil
  then show ?case by simp
next
  case (Cons y ys)
  show ?case
  proof (cases n)
    case 0
    then show ?thesis by simp
  next
    case (Suc k)
    then have "ys ! k \<in> set ys" using Cons.prems by simp
    then have "y \<noteq> ys ! k" using Cons.prems by auto
    then show ?thesis using Cons Suc by simp
  qed
qed

lemma py_index_mem: "py_index xs j = Inr x \<Longrightarrow> x \<in> set xs"
  by (auto simp: py_index_def Let_def split: if_splits)

lemma translate_triple_iff:
  assumes "distinct merged"
  shows "translate_triple merged own t = Inr t' \<longleftrightarrow> translation_of merged own t t'"
proof -
  obtain h r tl q where t: "t = (h, r, tl, q)" by (cases t) auto
  obtain h' r' tl' q' where t': "t' = (h', r', tl', q')" by (cases t') auto
  show ?thesis
  proof
    assume "translate_triple merged own t = Inr t'"
    then obtain sh n st k where
      "py_index own h = Inr sh" "list_index merged sh = Inr n"
      "py_index own tl = Inr st" "list_index merged st = Inr k"
      "h' = int n" "tl' = int k" "r' = r" "q' = q"
      unfolding t t' translate_triple_def by (auto split: sum.splits)
    then show "translation_of merged own t t'"
      unfolding t t' translation_of_def by (auto dest: list_index_Inr)
  next
    assume "translation_of merged own t t'"
    then have p: "r' = r" "q' = q" "0 \<le> h'" "nat h' < length merged" "0 \<le> tl'"
      "nat tl' < length merged" "py_index own h = Inr (merged ! nat h')"
      "py_index own tl = Inr (merged ! nat tl')"
      unfolding t t' translation_of_def by auto
    show "translate_triple merged own t = Inr t'"
      unfolding t t' translate_triple_def
      using p list_index_distinct [OF assms p(4)] list_index_distinct [OF assms p(6)]
      by simp
  qed
qed

lemma map_err_set:
  "map_err f xs = Inr ys \<Longrightarrow> set ys = {y. \<exists>x \<in> set xs. f x = Inr y}"
proof (induction xs arbitrary: ys)
  case Nil
  then show ?case by simp
next
  case (Cons x xs)
  then show ?case by (auto split: sum.splits)
qed

lemma first_writer_fold:
  "map_of (foldl (\<lambda>m (k, v). if map_of m k = None then AList.update k v m else m) init items) key
   = (case map_of init key of Some v \<Rightarrow> Some v | None \<Rightarrow> map_of items key)"
proof (induction items arbitrary: init)
  case Nil
  show ?case by (simp split: option.splits)
next
  case (Cons p items)
  obtain k v where p: "p = (k, v)" by (cases p)
  show ?case
    unfolding p by (simp add: Cons.IH AList.update_conv' split: option.splits)
qed

lemma merge_span_probabilities_lookup:
  "map_of (merge_span_probabilities p1 p2) key
   = (case map_of (entries p1) key of Some v \<Rightarrow> Some v | None \<Rightarrow> map_of (entries p2) key)"
  unfolding merge_span_probabilities_def first_writer_fold
  by (simp add: entries_def map_add_def split: option.splits)


lemma first_writer_keys:
  "distinct (map fst init) \<Longrightarrow>
   distinct (map fst (foldl (\<lambda>m (k, v). if map_of m k = None then AList.update k v m else m)
                        init items))"
proof (induction items arbitrary: init)
  case Nil
  then show ?case by simp
next
  case (Cons p items)
  obtain k v where p: "p = (k, v)" by (cases p)
  show ?case
    unfolding p using Cons.prems by (auto intro!: Cons.IH simp: AList.distinct_update)
qed

lemma merge_span_probabilities_is_dict: "is_dict (merge_span_probabilities p1 p2)"
  unfolding merge_span_probabilities_def is_dict_def by (rule first_writer_keys) simp

text \<open>
  The predictions of a pairwise merge that returns, of two windows that both have
  \<^verbatim>\<open>predicted_spans\<close>: the merged \<^verbatim>\<open>predicted_spans\<close> is the sorted list, without
  repetition, of the spans of either window; the merged probability map, stored as
  \<^verbatim>\<open>predicted_spans_probs\<close>, has one item for a key and, for each key, the entry of
  \<open>a\<close> when \<open>a\<close> has one and the entry of \<open>b\<close> otherwise, where the entries of a window
  are those of its \<^verbatim>\<open>probs_window_labels_chars\<close>, the field the code reads;
  \<^verbatim>\<open>predicted_triples_probs\<close> is empty; and when both windows have
  \<^verbatim>\<open>predicted_triples\<close>, the merged triples are the sorted list, without repetition,
  of the translations of the triples of either window.
\<close>

lemma merge_window_pair_predictions:
  assumes "merge_window_pair so a b h = (Inr m, h')"
    and "predicted_spans a = Some sa" and "predicted_spans b = Some sb"
  shows "\<exists>ms mp.
       predicted_spans m = Some ms \<and> sorted ms \<and> distinct ms \<and> set ms = set sa \<union> set sb
     \<and> predicted_spans_probs m = Some mp \<and> is_dict mp
     \<and> (\<forall>key. map_of mp key =
            (case map_of (entries (probs_window_labels_chars a)) key of
               Some v \<Rightarrow> Some v
             | None \<Rightarrow> map_of (entries (probs_window_labels_chars b)) key))
     \<and> predicted_triples_probs m = Some []
     \<and> (\<forall>ta tb. predicted_triples a = Some ta \<and> predicted_triples b = Some tb \<longrightarrow>
           (\<exists>mt. predicted_triples m = Some mt \<and> sorted mt \<and> distinct mt
              \<and> set mt = {t'. \<exists>t \<in> set ta. translation_of ms sa t t'}
                         \<union> {t'. \<exists>t \<in> set tb. translation_of ms sb t t'}))"
proof -
  from merge_window_pair_Inr(5) [OF assms(1)] obtain ms mp mt tp where
    m: "predicted_spans m = Some ms" "predicted_spans_probs m = Some mp"
      "predicted_triples m = Some mt" "predicted_triples_probs m = Some tp"
    and mp: "merge_predictions a b = Inr (ms, mp, mt, tp)"
    by blast
  let ?ms = "sorted_list_of_set (set sa \<union> set sb)"
  let ?mp = "merge_span_probabilities (probs_window_labels_chars a) (probs_window_labels_chars b)"
  have ms: "ms = ?ms" and mpp: "mp = ?mp" and tp: "tp = []"
    using mp assms(2,3)
    by (auto simp: merge_predictions_def Let_def split: option.splits sum.splits)
  have s: "sorted ms" "distinct ms" "set ms = set sa \<union> set sb"
    unfolding ms by simp_all
  have triples: "\<exists>mt'. predicted_triples m = Some mt' \<and> sorted mt' \<and> distinct mt'
              \<and> set mt' = {t'. \<exists>t \<in> set ta. translation_of ms sa t t'}
                         \<union> {t'. \<exists>t \<in> set tb. translation_of ms sb t t'}"
    if t: "predicted_triples a = Some ta" "predicted_triples b = Some tb" for ta tb
  proof -
    from mp assms(2,3) t obtain t1 t2 where
      t1: "map_err (translate_triple ?ms sa) ta = Inr t1"
      and t2: "map_err (translate_triple ?ms sb) tb = Inr t2"
      and mt: "mt = sorted_list_of_set (set t1 \<union> set t2)"
      by (auto simp: merge_predictions_def Let_def split: sum.splits)
    have e1: "set t1 = {t'. \<exists>t \<in> set ta. translation_of ms sa t t'}"
      unfolding map_err_set [OF t1] ms
      by (simp add: translate_triple_iff)
    have e2: "set t2 = {t'. \<exists>t \<in> set tb. translation_of ms sb t t'}"
      unfolding map_err_set [OF t2] ms
      by (simp add: translate_triple_iff)
    have "sorted mt" "distinct mt" "set mt = set t1 \<union> set t2"
      unfolding mt by simp_all
    then show ?thesis
      using m(3) unfolding e1 e2 by blast
  qed
  show ?thesis
    using m s triples merge_span_probabilities_lookup [of "probs_window_labels_chars a"
        "probs_window_labels_chars b"]
      merge_span_probabilities_is_dict [of "probs_window_labels_chars a"
        "probs_window_labels_chars b"]
    unfolding mpp tp by blast
qed

lemma predicted_run:
  "\<exists>m h'. merge_window_pair given_order predicted_a predicted_b [] = (Inr m, h')"
proof -
  have "merge_predictions predicted_a predicted_b =
      Inr ([(0, 3, ''PER''), (3, 3, ''MISC''), (5, 8, ''LOC'')],
           [((5, 8, ''LOC''), 80), ((0, 3, ''PER''), 90), ((3, 3, ''MISC''), 60)],
           [(0, ''born in'', 2, 7), (1, ''rel'', 2, 1), (2, ''rel'', 1, 2)], [])"
    by code_simp
  then show ?thesis
    by (rule merge_window_pair_succeeds [rotated 3])
      (simp_all add: pair_preconditions_def predicted_a_def predicted_b_def marked_a_def
        marked_b_def empty_sample_def merge_window_labels_def)
qed

lemma merge_window_pair_predictions_example:
  "predicted_spans predicted_a = Some [(5, 8, ''LOC''), (0, 3, ''PER'')]
   \<and> predicted_spans predicted_b = Some [(3, 3, ''MISC''), (5, 8, ''LOC'')]
   \<and> (\<exists>m h' ms mp mt.
         merge_window_pair given_order predicted_a predicted_b [] = (Inr m, h')
         \<and> predicted_spans m = Some ms \<and> sorted ms \<and> distinct ms
         \<and> set ms = {(5, 8, ''LOC''), (0, 3, ''PER''), (3, 3, ''MISC'')}
         \<and> predicted_spans_probs m = Some mp \<and> map_of mp (5, 8, ''LOC'') = Some 80
         \<and> predicted_triples m = Some mt \<and> sorted mt \<and> distinct mt
         \<and> predicted_triples_probs m = Some [])
   \<and> map_sum id (\<lambda>m. (predicted_spans m, predicted_triples m))
        (fst (merge_window_pair given_order predicted_a predicted_b []))
      = Inr (Some [(0, 3, ''PER''), (3, 3, ''MISC''), (5, 8, ''LOC'')],
             Some [(0, ''born in'', 2, 7), (1, ''rel'', 2, 1), (2, ''rel'', 1, 2)])"
proof -
  obtain m h' where run: "merge_window_pair given_order predicted_a predicted_b [] = (Inr m, h')"
    using predicted_run by blast
  have sa: "predicted_spans predicted_a = Some [(5, 8, ''LOC''), (0, 3, ''PER'')]"
    and sb: "predicted_spans predicted_b = Some [(3, 3, ''MISC''), (5, 8, ''LOC'')]"
    and ta: "predicted_triples predicted_a = Some [(1, ''born in'', 0, 7)]"
    and tb: "predicted_triples predicted_b = Some [(0, ''rel'', 1, 1), (- 1, ''rel'', 0, 2)]"
    and pa: "entries (probs_window_labels_chars predicted_a)
               = [((5, 8, ''LOC''), 80), ((0, 3, ''PER''), 90)]"
    by (simp_all add: predicted_a_def predicted_b_def entries_def)
  from merge_window_pair_predictions [OF run sa sb] obtain ms mp where
    r: "predicted_spans m = Some ms" "sorted ms" "distinct ms"
      "set ms = set [(5, 8, ''LOC''), (0, 3, ''PER'')] \<union> set [(3, 3, ''MISC''), (5, 8, ''LOC'')]"
      "predicted_spans_probs m = Some mp" "is_dict mp"
      "\<forall>key. map_of mp key =
            (case map_of (entries (probs_window_labels_chars predicted_a)) key of
               Some v \<Rightarrow> Some v
             | None \<Rightarrow> map_of (entries (probs_window_labels_chars predicted_b)) key)"
      "predicted_triples_probs m = Some []"
      "\<forall>ta tb. predicted_triples predicted_a = Some ta \<and> predicted_triples predicted_b = Some tb \<longrightarrow>
           (\<exists>mt. predicted_triples m = Some mt \<and> sorted mt \<and> distinct mt
              \<and> set mt = {t'. \<exists>t \<in> set ta. translation_of ms [(5, 8, ''LOC''), (0, 3, ''PER'')] t t'}
                         \<union> {t'. \<exists>t \<in> set tb. translation_of ms [(3, 3, ''MISC''), (5, 8, ''LOC'')] t t'})"
    by blast
  from r(9) ta tb obtain mt where mt: "predicted_triples m = Some mt" "sorted mt" "distinct mt"
    by blast
  have p: "map_of mp (5, 8, ''LOC'') = Some 80"
    using r(7) unfolding pa by simp
  have s: "set ms = {(5, 8, ''LOC''), (0, 3, ''PER''), (3, 3, ''MISC'')}"
    using r(4) by auto
  have ev: "map_sum id (\<lambda>m. (predicted_spans m, predicted_triples m))
        (fst (merge_window_pair given_order predicted_a predicted_b []))
      = Inr (Some [(0, 3, ''PER''), (3, 3, ''MISC''), (5, 8, ''LOC'')],
             Some [(0, ''born in'', 2, 7), (1, ''rel'', 2, 1), (2, ''rel'', 1, 2)])"
    by code_simp
  show ?thesis
    using sa sb run r(1,2,3,5,8) s p mt ev by blast
qed

text \<open>
  A merged window has its probability map as \<^verbatim>\<open>predicted_spans_probs\<close> and no
  \<^verbatim>\<open>probs_window_labels_chars\<close>, the field the next merge reads: when the merged window
  is merged with a window \<open>c\<close>, the probability map has the entries of \<open>c\<close> alone.
\<close>

lemma merged_label_probabilities:
  assumes "merge_window_pair so a b h = (Inr m, h')"
  shows "probs_window_labels_chars m = None" and "predicted_spans m \<noteq> None"
  using assms
  by (auto simp: merge_window_pair_def split: option.splits sum.splits prod.splits)

lemma accumulator_probabilities_dropped:
  assumes "merge_window_pair so a b h = (Inr m, h1)"
    and "merge_window_pair so m c h1 = (Inr m', h2)"
  shows "\<exists>mp. predicted_spans_probs m' = Some mp
     \<and> (\<forall>key. map_of mp key =
            (if predicted_spans c = None then None
             else map_of (entries (probs_window_labels_chars c)) key))"
proof -
  note n = merged_label_probabilities [OF assms(1)]
  from merge_window_pair_Inr(5) [OF assms(2)] obtain ms mp mt tp where
    m: "predicted_spans_probs m' = Some mp"
    and mp: "merge_predictions m c = Inr (ms, mp, mt, tp)"
    by blast
  have "mp = (if predicted_spans c = None then []
              else merge_span_probabilities None (probs_window_labels_chars c))"
    using mp n
    by (auto simp: merge_predictions_def Let_def split: option.splits sum.splits)
  then have "map_of mp key =
            (if predicted_spans c = None then None
             else map_of (entries (probs_window_labels_chars c)) key)" for key
    by (simp add: merge_span_probabilities_lookup entries_def)
  with m show ?thesis by blast
qed

text \<open>
  Claim C6, where the code departs from it. \<open>predicted_a\<close>, \<open>predicted_b\<close> and
  \<open>predicted_c\<close> are three windows of one document, each with predicted spans and their
  probabilities. The merge of the first two has the spans of both and the probability
  entries of both, those of \<open>predicted_a\<close> first, and it has them as
  \<^verbatim>\<open>predicted_spans_probs\<close>, with no \<^verbatim>\<open>probs_window_labels_chars\<close>. \<^verbatim>\<open>merge_windows\<close> on
  the three windows merges that window with \<open>predicted_c\<close>: the result has the spans of
  the three windows, and of the probabilities only the entry of \<open>predicted_c\<close>. The
  entries of the first window of this pairwise merge are not taken.
\<close>

theorem probabilities_lost_in_fold:
  "map_sum id (\<lambda>m. (predicted_spans m, predicted_spans_probs m, probs_window_labels_chars m))
     (fst (merge_window_pair given_order predicted_a predicted_b []))
   = Inr (Some [(0, 3, ''PER''), (3, 3, ''MISC''), (5, 8, ''LOC'')],
          Some [((5, 8, ''LOC''), 80), ((0, 3, ''PER''), 90), ((3, 3, ''MISC''), 60)],
          None)
   \<and> map_sum id (map (\<lambda>m. (predicted_spans m, predicted_spans_probs m)))
       (fst (merge_windows given_order [predicted_a, predicted_b, predicted_c] []))
     = Inr [(Some [(0, 3, ''PER''), (3, 3, ''MISC''), (5, 8, ''LOC''), (17, 20, ''TIME'')],
             Some [((17, 20, ''TIME''), 50)])]"
  by code_simp

subsection \<open>What the two operations write\<close>

lemma unchanged_outside_refl: "unchanged_outside R h h"
  by (simp add: unchanged_outside_def)

lemma unchanged_outside_mono: "unchanged_outside R h h' \<Longrightarrow> R \<subseteq> R' \<Longrightarrow> unchanged_outside R' h h'"
  by (auto simp: unchanged_outside_def)

lemma unchanged_outside_trans:
  assumes "unchanged_outside R h h1" and "unchanged_outside R' h1 h2"
    and "\<forall>x \<in> R'. x < length h \<longrightarrow> x \<in> R"
  shows "unchanged_outside R h h2"
  using assms unfolding unchanged_outside_def
  by (metis le_trans less_le_trans)

lemma gather_candidates_frame:
  assumes "gather_candidates f1 f2 h = (c, h')"
  shows "unchanged_outside (set_option f1) h h'" and "length h' = Suc (length h)"
    and "c \<in> set_option f1 \<or> c = length h"
  using assms
  by (auto simp: gather_candidates_def alloc_def unchanged_outside_def nth_append
      nth_list_update Let_def split: option.splits)

lemma unique_candidates_frame:
  assumes "unique_candidates so c h = (c', h')"
  shows "unchanged_outside {} h h'" and "length h' = Suc (length h)" and "c' = length h"
  using assms
  by (auto simp: unique_candidates_def alloc_def unchanged_outside_def nth_append)

lemma merge_candidates_frame:
  assumes "merge_candidates so a b h = ((c, wc, sc, tc), h')"
  shows "unchanged_outside (candidate_refs a) h h'"
    and "length h \<le> c" "length h \<le> wc" "length h \<le> sc" "length h \<le> tc"
proof -
  obtain c1 h1 where g1: "gather_candidates (candidates a) (candidates b) h = (c1, h1)"
    by (cases "gather_candidates (candidates a) (candidates b) h")
  obtain c2 h2 where g2:
    "gather_candidates (windows_candidates a) (windows_candidates b) h1 = (c2, h2)"
    by (cases "gather_candidates (windows_candidates a) (windows_candidates b) h1")
  obtain c3 h3 where g3: "gather_candidates (span_candidates a) (span_candidates b) h2 = (c3, h3)"
    by (cases "gather_candidates (span_candidates a) (span_candidates b) h2")
  obtain c4 h4 where g4:
    "gather_candidates (triplet_candidates a) (triplet_candidates b) h3 = (c4, h4)"
    by (cases "gather_candidates (triplet_candidates a) (triplet_candidates b) h3")
  obtain u1 h5 where u1: "unique_candidates so c1 h4 = (u1, h5)"
    by (cases "unique_candidates so c1 h4")
  obtain u2 h6 where u2: "unique_candidates so c2 h5 = (u2, h6)"
    by (cases "unique_candidates so c2 h5")
  obtain u3 h7 where u3: "unique_candidates so c3 h6 = (u3, h7)"
    by (cases "unique_candidates so c3 h6")
  obtain u4 h8 where u4: "unique_candidates so c4 h7 = (u4, h8)"
    by (cases "unique_candidates so c4 h7")
  have r: "c = u1" "wc = u2" "sc = u3" "tc = u4" "h' = h8"
    using assms by (simp_all add: merge_candidates_def Let_def g1 g2 g3 g4 u1 u2 u3 u4)
  note f1 = gather_candidates_frame [OF g1] and f2 = gather_candidates_frame [OF g2]
    and f3 = gather_candidates_frame [OF g3] and f4 = gather_candidates_frame [OF g4]
    and f5 = unique_candidates_frame [OF u1] and f6 = unique_candidates_frame [OF u2]
    and f7 = unique_candidates_frame [OF u3] and f8 = unique_candidates_frame [OF u4]
  have sub: "set_option (candidates a) \<subseteq> candidate_refs a"
    "set_option (windows_candidates a) \<subseteq> candidate_refs a"
    "set_option (span_candidates a) \<subseteq> candidate_refs a"
    "set_option (triplet_candidates a) \<subseteq> candidate_refs a"
    by (auto simp: candidate_refs_def)
  have s1: "unchanged_outside (candidate_refs a) h h1"
    using f1(1) sub(1) by (rule unchanged_outside_mono)
  have s2: "unchanged_outside (candidate_refs a) h h2"
    by (rule unchanged_outside_trans [OF s1 f2(1)]) (use sub(2) in auto)
  have s3: "unchanged_outside (candidate_refs a) h h3"
    by (rule unchanged_outside_trans [OF s2 f3(1)]) (use sub(3) in auto)
  have s4: "unchanged_outside (candidate_refs a) h h4"
    by (rule unchanged_outside_trans [OF s3 f4(1)]) (use sub(4) in auto)
  have s5: "unchanged_outside (candidate_refs a) h h5"
    by (rule unchanged_outside_trans [OF s4 f5(1)]) simp
  have s6: "unchanged_outside (candidate_refs a) h h6"
    by (rule unchanged_outside_trans [OF s5 f6(1)]) simp
  have s7: "unchanged_outside (candidate_refs a) h h7"
    by (rule unchanged_outside_trans [OF s6 f7(1)]) simp
  have s8: "unchanged_outside (candidate_refs a) h h8"
    by (rule unchanged_outside_trans [OF s7 f8(1)]) simp
  show "unchanged_outside (candidate_refs a) h h'" using s8 r by simp
  show "length h \<le> c" "length h \<le> wc" "length h \<le> sc" "length h \<le> tc"
    using r f1(2) f2(2) f3(2) f4(2) f5(2,3) f6(2,3) f7(2,3) f8(2,3) by simp_all
qed

lemma merge_window_pair_frame:
  assumes "merge_window_pair so a b h = (r, h')"
  shows "unchanged_outside (candidate_refs a) h h'"
    and "r = Inr m \<Longrightarrow> \<forall>x \<in> candidate_refs m. length h \<le> x"
proof -
  obtain c wc sc tc hc where mc: "merge_candidates so a b h = ((c, wc, sc, tc), hc)"
    by (cases "merge_candidates so a b h") auto
  note f = merge_candidates_frame [OF mc]
  have "h' = h \<or> h' = hc"
    using assms unfolding merge_window_pair_def mc
    by (auto split: option.splits sum.splits prod.splits)
  then show "unchanged_outside (candidate_refs a) h h'"
    using f(1) unchanged_outside_refl by auto
  show "\<forall>x \<in> candidate_refs m. length h \<le> x" if "r = Inr m"
    using assms that f(2-5) unfolding merge_window_pair_def mc
    by (auto simp: candidate_refs_def split: option.splits sum.splits prod.splits)
qed


lemma merge_loop_frame:
  "merge_loop so acc ws h = (r, h') \<Longrightarrow>
     unchanged_outside (candidate_refs acc) h h'
     \<and> (\<forall>m. r = Inr m \<longrightarrow> m = acc \<or> (\<forall>x \<in> candidate_refs m. length h \<le> x))"
proof (induction ws arbitrary: acc h r h')
  case Nil
  then show ?case by (auto simp: unchanged_outside_refl)
next
  case (Cons w ws)
  obtain r1 h1 where p: "merge_window_pair so acc w h = (r1, h1)"
    by (cases "merge_window_pair so acc w h")
  note f = merge_window_pair_frame [OF p]
  show ?case
  proof (cases r1)
    case (Inl e)
    then show ?thesis using Cons.prems p f(1) by auto
  next
    case (Inr m1)
    then have rest: "merge_loop so m1 ws h1 = (r, h')"
      using Cons.prems p by simp
    from Cons.IH [OF rest] have
      g: "unchanged_outside (candidate_refs m1) h1 h'"
      and res: "\<forall>m. r = Inr m \<longrightarrow> m = m1 \<or> (\<forall>x \<in> candidate_refs m. length h1 \<le> x)"
      by blast+
    have fresh: "\<forall>x \<in> candidate_refs m1. length h \<le> x"
      using f(2) [OF Inr] .
    have len: "length h \<le> length h1"
      using f(1) by (simp add: unchanged_outside_def)
    have "unchanged_outside (candidate_refs acc) h h'"
      by (rule unchanged_outside_trans [OF f(1) g]) (use fresh in auto)
    moreover have "\<forall>m. r = Inr m \<longrightarrow> m = acc \<or> (\<forall>x \<in> candidate_refs m. length h \<le> x)"
      using res fresh len by (metis le_trans)
    ultimately show ?thesis by simp
  qed
qed

lemma merge_doc_windows_many:
  "ws = first # second # rest' \<Longrightarrow>
   merge_doc_windows so ws h =
     (if offset first \<noteq> None
      then (if \<exists>w \<in> set ws. offset w = None then (Inl TypeError, h)
            else (case sort_key (\<lambda>x. the (offset x)) ws of
                    [] \<Rightarrow> (Inl IndexError, h)
                  | w # ws' \<Rightarrow> merge_loop so w ws' h))
      else merge_loop so first (second # rest') h)"
  by (auto simp: merge_doc_windows_def simp del: sort_key_simps merge_loop.simps)

lemma merge_doc_windows_frame:
  assumes "merge_doc_windows so ws h = (r, h')"
  shows "unchanged_outside (if 2 \<le> length ws then candidate_refs (fold_start ws) else {}) h h'"
    and "\<forall>m. r = Inr m \<longrightarrow> m \<in> set ws \<or> (\<forall>x \<in> candidate_refs m. length h \<le> x)"
proof -
  have "(2 \<le> length ws \<and> fold_start ws \<in> set ws
          \<and> (\<exists>rest. merge_loop so (fold_start ws) rest h = (r, h')))
        \<or> (h' = h \<and> (\<forall>m. r = Inr m \<longrightarrow> m \<in> set ws))"
  proof (cases ws)
    case Nil
    then show ?thesis using assms by (auto simp: merge_doc_windows_def)
  next
    case (Cons first rest)
    show ?thesis
    proof (cases rest)
      case Nil
      then show ?thesis using assms Cons by (auto simp: merge_doc_windows_def)
    next
      case (Cons second rest')
      have ws: "ws = first # second # rest'"
        using \<open>ws = first # rest\<close> Cons by simp
      have len: "2 \<le> length ws" unfolding ws by simp
      note eq = assms [unfolded merge_doc_windows_many [OF ws]]
      show ?thesis
      proof (cases "offset first = None")
        case True
        then have "merge_loop so first (second # rest') h = (r, h')"
          using eq by simp
        moreover have "fold_start ws = first"
          using True unfolding ws fold_start_def by simp
        moreover have "first \<in> set ws" using ws by simp
        ultimately show ?thesis using len by metis
      next
        case False
        show ?thesis
        proof (cases "\<exists>w \<in> set ws. offset w = None")
          case True
          then have "r = Inl TypeError" "h' = h" using eq False by simp_all
          then show ?thesis by simp
        next
          case noNone: False
          have "length (sort_key (\<lambda>x. the (offset x)) ws) = length ws"
            by simp
          then obtain w ws' where s: "sort_key (\<lambda>x. the (offset x)) ws = w # ws'"
            unfolding ws by (cases "sort_key (\<lambda>x. the (offset x)) (first # second # rest')") auto
          have "w \<in> set (sort_key (\<lambda>x. the (offset x)) ws)"
            unfolding s by simp
          then have "w \<in> set ws" by simp
          moreover have "merge_loop so w ws' h = (r, h')"
            using eq False noNone unfolding s by simp
          moreover have "fold_start ws = w"
            using False s unfolding fold_start_def by (simp add: ws)
          ultimately show ?thesis using len by metis
        qed
      qed
    qed
  qed
  then consider rest where "2 \<le> length ws" "fold_start ws \<in> set ws"
      "merge_loop so (fold_start ws) rest h = (r, h')"
    | "h' = h" "\<forall>m. r = Inr m \<longrightarrow> m \<in> set ws"
    by blast
  then have "unchanged_outside (if 2 \<le> length ws then candidate_refs (fold_start ws) else {}) h h'
    \<and> (\<forall>m. r = Inr m \<longrightarrow> m \<in> set ws \<or> (\<forall>x \<in> candidate_refs m. length h \<le> x))"
  proof cases
    case 1
    from merge_loop_frame [OF 1(3)] have
      "unchanged_outside (candidate_refs (fold_start ws)) h h'"
      "\<forall>m. r = Inr m \<longrightarrow> m = fold_start ws \<or> (\<forall>x \<in> candidate_refs m. length h \<le> x)"
      by blast+
    then show ?thesis
      using 1(1,2) by auto
  next
    case 2
    then show ?thesis by (simp add: unchanged_outside_refl)
  qed
  then show "unchanged_outside (if 2 \<le> length ws then candidate_refs (fold_start ws) else {}) h h'"
    and "\<forall>m. r = Inr m \<longrightarrow> m \<in> set ws \<or> (\<forall>x \<in> candidate_refs m. length h \<le> x)"
    by blast+
qed

text \<open>The grouping loop gives each document its windows, in the order of the call.\<close>

lemma group_by_doc_id_snoc:
  "group_by_doc_id (windows @ [w]) =
     AList.update (doc_id w)
       ((case map_of (group_by_doc_id windows) (doc_id w) of None \<Rightarrow> [] | Some ws \<Rightarrow> ws) @ [w])
       (group_by_doc_id windows)"
  by (simp add: group_by_doc_id_def)

lemma group_by_doc_id_lookup:
  "distinct (map fst (group_by_doc_id windows))
   \<and> (\<forall>d. map_of (group_by_doc_id windows) d =
            (if windows_of_doc d windows = [] then None else Some (windows_of_doc d windows)))"
proof (induction windows rule: rev_induct)
  case Nil
  then show ?case by (simp add: group_by_doc_id_def windows_of_doc_def)
next
  case (snoc w windows)
  then have d: "distinct (map fst (group_by_doc_id windows))"
    and m: "\<And>d. map_of (group_by_doc_id windows) d =
            (if windows_of_doc d windows = [] then None else Some (windows_of_doc d windows))"
    by blast+
  have "distinct (map fst (group_by_doc_id (windows @ [w])))"
    unfolding group_by_doc_id_snoc using d by (rule AList.distinct_update)
  moreover have "map_of (group_by_doc_id (windows @ [w])) d' =
            (if windows_of_doc d' (windows @ [w]) = [] then None
             else Some (windows_of_doc d' (windows @ [w])))" for d'
    unfolding group_by_doc_id_snoc AList.update_conv' m
    by (simp add: windows_of_doc_def)
  ultimately show ?case by blast
qed

lemma group_by_doc_id_filter:
  assumes "(d, ws) \<in> set (group_by_doc_id windows)"
  shows "ws = windows_of_doc d windows" and "ws \<noteq> []"
proof -
  from group_by_doc_id_lookup [of windows] have
    d: "distinct (map fst (group_by_doc_id windows))"
    and m: "map_of (group_by_doc_id windows) d =
            (if windows_of_doc d windows = [] then None else Some (windows_of_doc d windows))"
    by blast+
  from assms d have "map_of (group_by_doc_id windows) d = Some ws"
    by simp
  with m show "ws = windows_of_doc d windows" and "ws \<noteq> []"
    by (auto split: if_splits)
qed

lemma group_by_doc_id_fold_start:
  assumes "(d, ws) \<in> set (group_by_doc_id windows)" and "2 \<le> length ws"
  shows "fold_start ws \<in> fold_starts windows"
proof -
  note f = group_by_doc_id_filter [OF assms(1)]
  from f(2) have "hd ws \<in> set ws" by simp
  then have "hd ws \<in> set windows" "doc_id (hd ws) = d"
    unfolding f(1) windows_of_doc_def by simp_all
  then have "d \<in> set (remdups (map doc_id windows))" by auto
  then show ?thesis
    using assms(2) unfolding fold_starts_def f(1) by auto
qed

lemma group_by_doc_id_subset:
  "(d, ws) \<in> set (group_by_doc_id windows) \<Longrightarrow> set ws \<subseteq> set windows"
  using group_by_doc_id_filter(1) [of d ws windows] by (auto simp: windows_of_doc_def)

lemma merge_groups_frame:
  "merge_groups so gs h = (r, h') \<Longrightarrow> \<forall>(d, ws) \<in> set gs. set ws \<subseteq> S \<Longrightarrow>
   \<forall>(d, ws) \<in> set gs. 2 \<le> length ws \<longrightarrow> fold_start ws \<in> F \<Longrightarrow>
     unchanged_outside (\<Union>(candidate_refs ` F)) h h'
     \<and> (\<forall>ms m. r = Inr ms \<and> m \<in> set ms \<longrightarrow>
           m \<in> S \<or> (\<forall>x \<in> candidate_refs m. length h \<le> x))"
proof (induction gs arbitrary: h r h')
  case Nil
  then show ?case by (auto simp: unchanged_outside_refl)
next
  case (Cons g gs)
  obtain d ws where g: "g = (d, ws)" by (cases g)
  have S: "set ws \<subseteq> S" "\<forall>(d, ws) \<in> set gs. set ws \<subseteq> S"
    using Cons.prems(2) g by auto
  have F: "2 \<le> length ws \<longrightarrow> fold_start ws \<in> F"
    "\<forall>(d, ws) \<in> set gs. 2 \<le> length ws \<longrightarrow> fold_start ws \<in> F"
    using Cons.prems(3) g by auto
  obtain r1 h1 where p: "merge_doc_windows so ws h = (r1, h1)"
    by (cases "merge_doc_windows so ws h")
  note f = merge_doc_windows_frame [OF p]
  have f1: "unchanged_outside (\<Union>(candidate_refs ` F)) h h1"
    by (rule unchanged_outside_mono [OF f(1)]) (use F(1) in auto)
  show ?case
  proof (cases r1)
    case (Inl e)
    then show ?thesis using Cons.prems(1) p f1 unfolding g by auto
  next
    case (Inr m1)
    obtain r2 h2 where q: "merge_groups so gs h1 = (r2, h2)"
      by (cases "merge_groups so gs h1")
    from Cons.IH [OF q S(2) F(2)] have
      g2: "unchanged_outside (\<Union>(candidate_refs ` F)) h1 h2"
      and res: "\<forall>ms m. r2 = Inr ms \<and> m \<in> set ms \<longrightarrow>
           m \<in> S \<or> (\<forall>x \<in> candidate_refs m. length h1 \<le> x)"
      by blast+
    have h': "h' = h2"
      using Cons.prems(1) p q Inr unfolding g by (auto split: sum.splits)
    have len: "length h \<le> length h1"
      using f1 by (simp add: unchanged_outside_def)
    have frame: "unchanged_outside (\<Union>(candidate_refs ` F)) h h'"
      unfolding h' by (rule unchanged_outside_trans [OF f1 g2]) simp
    have m1: "m1 \<in> S \<or> (\<forall>x \<in> candidate_refs m1. length h \<le> x)"
      using f(2) Inr S(1) by auto
    have "m \<in> S \<or> (\<forall>x \<in> candidate_refs m. length h \<le> x)"
      if "r = Inr ms" "m \<in> set ms" for ms m
    proof -
      from that(1) Cons.prems(1) p q Inr obtain others where
        o: "r2 = Inr others" "ms = m1 # others"
        unfolding g by (auto split: sum.splits)
      from that(2) o(2) consider "m = m1" | "m \<in> set others" by auto
      then show ?thesis
      proof cases
        case 1
        then show ?thesis using m1 by simp
      next
        case 2
        with res o(1) have "m \<in> S \<or> (\<forall>x \<in> candidate_refs m. length h1 \<le> x)" by blast
        then show ?thesis using len by (metis le_trans)
      qed
    qed
    then show ?thesis using frame by blast
  qed
qed

lemma merge_windows_frame:
  assumes "merge_windows so windows h = (r, h')"
  shows "unchanged_outside (\<Union>(candidate_refs ` fold_starts windows)) h h'"
    and "\<forall>ms m. r = Inr ms \<and> m \<in> set ms \<longrightarrow>
           m \<in> set windows \<or> (\<forall>x \<in> candidate_refs m. length h \<le> x)"
proof -
  have s: "\<forall>(d, ws) \<in> set (group_by_doc_id windows). set ws \<subseteq> set windows"
    using group_by_doc_id_subset by blast
  have f: "\<forall>(d, ws) \<in> set (group_by_doc_id windows).
             2 \<le> length ws \<longrightarrow> fold_start ws \<in> fold_starts windows"
    using group_by_doc_id_fold_start by blast
  from merge_groups_frame [OF assms [unfolded merge_windows_def] s f]
  show "unchanged_outside (\<Union>(candidate_refs ` fold_starts windows)) h h'"
    and "\<forall>ms m. r = Inr ms \<and> m \<in> set ms \<longrightarrow>
           m \<in> set windows \<or> (\<forall>x \<in> candidate_refs m. length h \<le> x)"
    by blast+
qed

lemma py_or_None: "py_or None current = current"
  by (simp add: py_or_def)

lemma set_splitter_params_again:
  "set_splitter_params (set_splitter_params sp wsa stride) None None
     = set_splitter_params sp wsa stride"
  by (simp add: set_splitter_params_def py_or_def split: option.splits)

lemma create_windows_again:
  "create_windows tokenize split
     (snd (create_windows tokenize split sp docs wsa stride ml topic isw mentions
        :: (error + ('p, 'q) RelikReaderSample list \<times> ('p, 'q) RelikReaderSample list)
             \<times> splitter))
     docs None None ml topic isw mentions
   = (create_windows tokenize split sp docs wsa stride ml topic isw mentions
        :: (error + ('p, 'q) RelikReaderSample list \<times> ('p, 'q) RelikReaderSample list)
             \<times> splitter)"
proof -
  have s: "snd (create_windows tokenize split sp docs wsa stride ml topic isw mentions
        :: (error + ('p, 'q) RelikReaderSample list \<times> ('p, 'q) RelikReaderSample list)
             \<times> splitter) = set_splitter_params sp wsa stride"
    by (auto simp: create_windows_def Let_def split: option.splits)
  show ?thesis
    unfolding s
    by (simp add: create_windows_def [of _ _ "set_splitter_params sp wsa stride"]
          create_windows_def [of _ _ sp] set_splitter_params_again Let_def)
qed


text \<open>
  Claim C8, as the code has it. \<^verbatim>\<open>create_windows\<close> leaves the splitter with its two
  attributes set from the arguments \<^verbatim>\<open>window_size\<close> and \<^verbatim>\<open>stride\<close> (an attribute the
  splitter lacks stays absent, and an argument that is \<^verbatim>\<open>None\<close> or \<^verbatim>\<open>0\<close> keeps the
  attribute as it was), so without the two arguments the splitter is as before; and the
  attributes stay set after the call: the same call without the two arguments, on the
  splitter as the first call left it, returns what the first call returned.
  \<^verbatim>\<open>merge_windows\<close> changes no list of the heap other than candidate lists of the
  windows \<open>fold_starts windows\<close>: for each document of two windows or more, the one
  window its merge starts from. The candidate lists of every other input window, those
  it shares with a starting window apart, are as before the call. Every window it
  returns is an input window (a document of one window is returned as it is) or has
  four candidate lists that did not exist before the call.
  What happens to the candidate lists of the starting windows is not part of this
  statement.
\<close>

theorem side_effects:
  "snd (create_windows tokenize split sp docs wsa stride ml topic isw mentions
          :: (error + ('p, 'q) RelikReaderSample list \<times> ('p, 'q) RelikReaderSample list)
             \<times> splitter)
     = sp\<lparr>window_size := map_option (py_or wsa) (window_size sp),
          window_stride := map_option (py_or stride) (window_stride sp)\<rparr>
   \<and> (wsa = None \<and> stride = None \<longrightarrow>
        snd (create_windows tokenize split sp docs wsa stride ml topic isw mentions
               :: (error + ('p, 'q) RelikReaderSample list \<times> ('p, 'q) RelikReaderSample list)
                  \<times> splitter)
          = sp)
   \<and> create_windows tokenize split
        (snd (create_windows tokenize split sp docs wsa stride ml topic isw mentions
               :: (error + ('p, 'q) RelikReaderSample list \<times> ('p, 'q) RelikReaderSample list)
                  \<times> splitter))
        docs None None ml topic isw mentions
      = (create_windows tokenize split sp docs wsa stride ml topic isw mentions
               :: (error + ('p, 'q) RelikReaderSample list \<times> ('p, 'q) RelikReaderSample list)
                  \<times> splitter)
   \<and> (merge_windows so windows h = (r, h') \<longrightarrow>
        unchanged_outside (\<Union>(candidate_refs ` fold_starts windows)) h h'
        \<and> (\<forall>ms m. r = Inr ms \<and> m \<in> set ms \<longrightarrow>
              m \<in> set windows \<or> (\<forall>x \<in> candidate_refs m. length h \<le> x)))"
proof (intro conjI impI)
  show a: "snd (create_windows tokenize split sp docs wsa stride ml topic isw mentions
          :: (error + ('p, 'q) RelikReaderSample list \<times> ('p, 'q) RelikReaderSample list)
             \<times> splitter)
     = sp\<lparr>window_size := map_option (py_or wsa) (window_size sp),
          window_stride := map_option (py_or stride) (window_stride sp)\<rparr>"
    by (auto simp: create_windows_def Let_def set_splitter_params_def map_option_case
        split: option.splits)
  show "snd (create_windows tokenize split sp docs wsa stride ml topic isw mentions
               :: (error + ('p, 'q) RelikReaderSample list \<times> ('p, 'q) RelikReaderSample list)
                  \<times> splitter)
          = sp" if "wsa = None \<and> stride = None"
    unfolding a using that by (simp add: py_or_None [abs_def] option.map_ident map_option.identity id_def)
  show "create_windows tokenize split
        (snd (create_windows tokenize split sp docs wsa stride ml topic isw mentions
               :: (error + ('p, 'q) RelikReaderSample list \<times> ('p, 'q) RelikReaderSample list)
                  \<times> splitter))
        docs None None ml topic isw mentions
      = (create_windows tokenize split sp docs wsa stride ml topic isw mentions
               :: (error + ('p, 'q) RelikReaderSample list \<times> ('p, 'q) RelikReaderSample list)
                  \<times> splitter)"
    by (rule create_windows_again)
next
  assume m: "merge_windows so windows h = (r, h')"
  show "unchanged_outside (\<Union>(candidate_refs ` fold_starts windows)) h h'"
    by (rule merge_windows_frame(1) [OF m])
  show "\<forall>ms m. r = Inr ms \<and> m \<in> set ms \<longrightarrow>
              m \<in> set windows \<or> (\<forall>x \<in> candidate_refs m. length h \<le> x)"
    by (rule merge_windows_frame(2) [OF m])
qed

text \<open>
  The documents of the example call are merged from \<open>offset_a\<close>, the second window of the
  call and the first by offset: the list of \<open>offset_b\<close> and the list no window refers to
  are as they were.
\<close>

lemma example_fold_starts: "\<Union>(candidate_refs ` fold_starts [offset_b, offset_a]) = {0}"
  by code_simp

theorem side_effects_witness:
  "snd (create_windows space_tokenizer window_splitter example_splitter
          (One_str ''the cat sat down'') None None None None False None
        :: (error + (int, int) RelikReaderSample list \<times> (int, int) RelikReaderSample list)
           \<times> splitter)
     = example_splitter
   \<and> candidate_refs offset_b = {1}
   \<and> (\<exists>r h'. merge_windows given_order [offset_b, offset_a] candidate_heap = (r, h')
          \<and> unchanged_outside (\<Union>(candidate_refs ` fold_starts [offset_b, offset_a]))
                candidate_heap h'
          \<and> h' ! 1 = [''Rome''] \<and> h' ! 2 = [''Oslo''])"
proof -
  obtain r h' where run: "merge_windows given_order [offset_b, offset_a] candidate_heap = (r, h')"
    by (cases "merge_windows given_order [offset_b, offset_a] candidate_heap")
  note t = side_effects [of space_tokenizer window_splitter example_splitter
      "One_str ''the cat sat down''" None None None None False None
      given_order "[offset_b, offset_a]" candidate_heap r h', where ?'p = int and ?'q = int]
  from t run have f: "unchanged_outside (\<Union>(candidate_refs ` fold_starts [offset_b, offset_a]))
                candidate_heap h'"
    by blast
  have "length candidate_heap = 3" "candidate_heap ! 1 = [''Rome'']"
    "candidate_heap ! 2 = [''Oslo'']"
    by (simp_all add: candidate_heap_def)
  with f have "h' ! 1 = [''Rome'']" "h' ! 2 = [''Oslo'']"
    unfolding unchanged_outside_def example_fold_starts by simp_all
  moreover have "candidate_refs offset_b = {1}"
    by code_simp
  ultimately show ?thesis using t run f by blast
qed

text \<open>
  The claim as stated fails. Merging \<open>candidate_a\<close> and \<open>candidate_b\<close> extends the
  list at \<open>0\<close>, the \<^verbatim>\<open>candidates\<close> of the input window \<open>candidate_a\<close>, by the
  candidates of \<open>candidate_b\<close>: \<^verbatim>\<open>candidates = window1.candidates\<close> followed by
  \<^verbatim>\<open>candidates += window2.candidates\<close> writes to the list of \<^verbatim>\<open>window1\<close>. And
  \<open>resizing_call\<close> leaves the splitter with \<^verbatim>\<open>window_size\<close> 2 instead of 3.
\<close>

theorem inputs_are_modified:
  "candidates candidate_a = Some 0
   \<and> candidate_heap ! 0 = [''Paris'']
   \<and> snd (merge_windows given_order [candidate_a, candidate_b] candidate_heap) ! 0 = [''Paris'', ''Rome'']
   \<and> window_size example_splitter = Some (Some 3)
   \<and> window_size (snd resizing_call) = Some (Some 2)"
  by code_simp

end
